theory Spec2Isabelle
  imports Main "HOL-Library.Sublist" "HOL-Library.Char_ord" "HOL-Library.List_Lexorder"
    "HOL-Library.Multiset"
begin

section \<open>Strings\<close>

text \<open>
  Go strings are byte sequences; \<^typ>\<open>string\<close> is a list of bytes as well.  The functions
  of package \<open>strings\<close> that \<open>post.go\<close> calls are written out here.
\<close>

text \<open>\<open>strings.Index(s, sub)\<close>: the position of the first occurrence of \<open>sub\<close> in \<open>s\<close>;
  Go's \<open>-1\<close> is \<^const>\<open>None\<close>.\<close>

fun strIndex :: "string \<Rightarrow> string \<Rightarrow> nat option" where
  "strIndex [] sub = (if sub = [] then Some 0 else None)"
| "strIndex (c # cs) sub =
     (if prefix sub (c # cs) then Some 0 else map_option Suc (strIndex cs sub))"

text \<open>\<open>strings.Contains(s, sub)\<close> is \<open>Index(s, sub) >= 0\<close>.\<close>

definition strContains :: "string \<Rightarrow> string \<Rightarrow> bool" where
  "strContains s sub = (strIndex s sub \<noteq> None)"

text \<open>\<open>strings.HasPrefix(s, p)\<close>.\<close>

definition hasPrefix :: "string \<Rightarrow> string \<Rightarrow> bool" where
  "hasPrefix s p = prefix p s"

text \<open>\<open>strings.Split(s, sep)\<close> for a non-empty separator (the source splits on the literals
  \<open>"\n"\<close> and \<open>"<img"\<close> only; for the empty separator, which it never passes, the bytes are
  returned one by one).\<close>

function strSplit :: "string \<Rightarrow> string \<Rightarrow> string list" where
  "strSplit s sep =
     (if sep = [] then map (\<lambda>c. [c]) s
      else case strIndex s sep of
             None \<Rightarrow> [s]
           | Some i \<Rightarrow> take i s # strSplit (drop (i + length sep) s) sep)"
  by pat_completeness auto

lemma strIndex_le: "strIndex s sub = Some i \<Longrightarrow> i + length sub \<le> length s"
proof (induction s arbitrary: i)
  case Nil
  then show ?case by (simp split: if_splits)
next
  case (Cons c cs)
  show ?case
  proof (cases "prefix sub (c # cs)")
    case True
    with Cons.prems have "i = 0" by simp
    moreover from True have "length sub \<le> length (c # cs)" by (rule prefix_length_le)
    ultimately show ?thesis by simp
  next
    case False
    with Cons.prems obtain j where "strIndex cs sub = Some j" "i = Suc j" by auto
    with Cons.IH show ?thesis by fastforce
  qed
qed

termination strSplit
proof (relation "measure (\<lambda>(s, sep). length s)")
  show "wf (measure (\<lambda>(s, sep). length s))" by simp
next
  fix s sep :: string and i
  assume "sep \<noteq> []" and "strIndex s sep = Some i"
  then have "i + length sep \<le> length s" and "0 < length sep"
    using strIndex_le by auto
  then have "length s - (i + length sep) < length s" by linarith
  then show "((drop (i + length sep) s, sep), (s, sep)) \<in> measure (\<lambda>(s, sep). length s)"
    by simp
qed

declare strSplit.simps [simp del]

text \<open>
  \<open>strings.TrimSpace\<close> removes leading and trailing white space as Unicode defines it.
  In UTF-8 the white-space runes are the byte sequences below: the six ASCII ones,
  U+0085, U+00A0, U+1680, U+2000 to U+200A, U+2028, U+2029, U+202F, U+205F and U+3000.
\<close>

definition spaceRunes :: "string list" where
  "spaceRunes =
     [[CHR 0x09], [CHR 0x0A], [CHR 0x0B], [CHR 0x0C], [CHR 0x0D], [CHR 0x20],
      [CHR 0xC2, CHR 0x85], [CHR 0xC2, CHR 0xA0],
      [CHR 0xE1, CHR 0x9A, CHR 0x80],
      [CHR 0xE2, CHR 0x80, CHR 0x80], [CHR 0xE2, CHR 0x80, CHR 0x81],
      [CHR 0xE2, CHR 0x80, CHR 0x82], [CHR 0xE2, CHR 0x80, CHR 0x83],
      [CHR 0xE2, CHR 0x80, CHR 0x84], [CHR 0xE2, CHR 0x80, CHR 0x85],
      [CHR 0xE2, CHR 0x80, CHR 0x86], [CHR 0xE2, CHR 0x80, CHR 0x87],
      [CHR 0xE2, CHR 0x80, CHR 0x88], [CHR 0xE2, CHR 0x80, CHR 0x89],
      [CHR 0xE2, CHR 0x80, CHR 0x8A],
      [CHR 0xE2, CHR 0x80, CHR 0xA8], [CHR 0xE2, CHR 0x80, CHR 0xA9],
      [CHR 0xE2, CHR 0x80, CHR 0xAF],
      [CHR 0xE2, CHR 0x81, CHR 0x9F],
      [CHR 0xE3, CHR 0x80, CHR 0x80]]"

lemma spaceRunes_nonempty: "r \<in> set spaceRunes \<Longrightarrow> 0 < length r"
  by (auto simp: spaceRunes_def)

function trimLeftSpace :: "string \<Rightarrow> string" where
  "trimLeftSpace s =
     (case find (\<lambda>r. prefix r s) spaceRunes of
        None \<Rightarrow> s
      | Some r \<Rightarrow> trimLeftSpace (drop (length r) s))"
  by pat_completeness auto

termination trimLeftSpace
proof (relation "measure length")
  show "wf (measure (length :: string \<Rightarrow> nat))" by simp
next
  fix s r :: string
  assume "find (\<lambda>r. prefix r s) spaceRunes = Some r"
  then have "r \<in> set spaceRunes" and "prefix r s"
    by (auto simp: find_Some_iff)
  then have "0 < length r" and "length r \<le> length s"
    using spaceRunes_nonempty prefix_length_le by blast+
  then have "length s - length r < length s" by linarith
  then show "(drop (length r) s, s) \<in> measure length" by simp
qed

declare trimLeftSpace.simps [simp del]

function trimRightSpace :: "string \<Rightarrow> string" where
  "trimRightSpace s =
     (case find (\<lambda>r. suffix r s) spaceRunes of
        None \<Rightarrow> s
      | Some r \<Rightarrow> trimRightSpace (take (length s - length r) s))"
  by pat_completeness auto

termination trimRightSpace
proof (relation "measure length")
  show "wf (measure (length :: string \<Rightarrow> nat))" by simp
next
  fix s r :: string
  assume "find (\<lambda>r. suffix r s) spaceRunes = Some r"
  then have "r \<in> set spaceRunes" and "suffix r s"
    by (auto simp: find_Some_iff)
  then have "0 < length r" and "length r \<le> length s"
    using spaceRunes_nonempty suffix_length_le by blast+
  then have "length s - length r < length s" by linarith
  then show "(take (length s - length r) s, s) \<in> measure length" by simp
qed

declare trimRightSpace.simps [simp del]

definition TrimSpace :: "string \<Rightarrow> string" where
  "TrimSpace s = trimRightSpace (trimLeftSpace s)"

section \<open>Metadata extraction (\<open>post.go\<close>, lines 182 to 250)\<close>

text \<open>
  A Go slice expression \<open>s[a:b]\<close> is \<open>take (b - a) (drop a s)\<close> and \<open>s[a:]\<close> is
  \<open>drop a s\<close>.  Go panics when the bounds are out of range; the lemmas \<open>strIndex_le\<close> and
  \<open>h1_end_ge_4\<close> below show that the bounds the extractors compute are in range.
\<close>

definition extractH1Title :: "string \<Rightarrow> string" where
  "extractH1Title htmlContent =
     (case strIndex htmlContent ''<h1>'' of
        None \<Rightarrow> ''''
      | Some index \<Rightarrow>
          (case strIndex (drop index htmlContent) ''</h1>'' of
             None \<Rightarrow> ''''
           | Some endIndex \<Rightarrow>
               TrimSpace (take (endIndex - 4) (drop (index + 4) htmlContent))))"

text \<open>
  The loop of \<open>extractFirstParagraph\<close>.  Its state is \<open>index\<close> and \<open>body\<close>.  When a
  \<open><p>\<close> is found with no \<open></p>\<close> after it, the body of the Go loop changes nothing and the
  loop runs again on the same state: the function does not return, which is the value
  \<^const>\<open>None\<close> here.
\<close>

partial_function (option) paragraphLoop :: "string \<Rightarrow> nat \<Rightarrow> string \<Rightarrow> string option" where
  "paragraphLoop htmlContent index body =
     (case strIndex (drop index htmlContent) ''<p>'' of
        None \<Rightarrow> Some body
      | Some paragraphIndex \<Rightarrow>
          (case strIndex (drop (index + paragraphIndex) htmlContent) ''</p>'' of
             None \<Rightarrow> paragraphLoop htmlContent index body
           | Some paragraphEndIndex \<Rightarrow>
               (let body' = TrimSpace (take (paragraphEndIndex + 4)
                                         (drop (index + paragraphIndex) htmlContent))
                in if strContains body' ''<img''
                   then paragraphLoop htmlContent (index + paragraphEndIndex + 4) body'
                   else Some body')))"

declare paragraphLoop.simps [code]

definition extractFirstParagraph :: "string \<Rightarrow> string option" where
  "extractFirstParagraph htmlContent = paragraphLoop htmlContent 0 ''''"

definition extractFirstImage :: "string \<Rightarrow> string" where
  "extractFirstImage htmlContent =
     (let imgTags = strSplit htmlContent ''<img'' in
      if length imgTags < 2 then ''''
      else
        (case strIndex (imgTags ! 1) ''>'' of
           None \<Rightarrow> ''''
         | Some imgTagEnd \<Rightarrow>
             (let imgTag = take imgTagEnd (imgTags ! 1) in
              case strIndex imgTag ''src=\"'' of
                None \<Rightarrow> ''''
              | Some srcIndex \<Rightarrow>
                  (let imgSrc = drop (srcIndex + 5) imgTag in
                   case strIndex imgSrc ''\"'' of
                     None \<Rightarrow> ''''
                   | Some imgSrcEnd \<Rightarrow> take imgSrcEnd imgSrc))))"

text \<open>\<open>extractTitleAndBody\<close> returns title, body and image source; it returns only if the
  paragraph loop does.\<close>

definition extractTitleAndBody :: "string \<Rightarrow> (string \<times> string \<times> string) option" where
  "extractTitleAndBody html =
     (let title = extractH1Title html in
      case extractFirstParagraph html of
        None \<Rightarrow> None
      | Some body \<Rightarrow> Some (title, body, extractFirstImage html))"

section \<open>Posts, the world outside the process, and memory\<close>

record Post =
  Name :: string
  Title :: string
  Body :: string
  Banner :: string
  Mtime :: string
  State :: string

text \<open>The zero value \<open>Post{}\<close>.\<close>

definition zeroPost :: Post where
  "zeroPost = \<lparr>Name = '''', Title = '''', Body = '''', Banner = '''', Mtime = '''', State = ''''\<rparr>"

definition dataDir :: string where
  "dataDir = ''data/''"

definition repoDir :: string where
  "repoDir = ''git/''"

text \<open>
  The file system is a table from names to entries, one table for the children of
  \<open>data/\<close> and one for those of \<open>git/\<close>; names are single path components, as
  \<open>os.ReadDir\<close> and the router's URL parameter deliver them.  A directory under \<open>data/\<close>
  carries the contents of its \<open>README.md\<close> when that file can be read.  A repository under
  \<open>git/\<close> carries whether \<open>git clone\<close> of it succeeds, the \<open>README.md\<close> of the tree it checks
  out, and the output of the \<open>git log -1\<close> command of \<open>getLatestCommitDate\<close> when that
  command succeeds.
\<close>

datatype dataEntry = DataFile | DataDir "string option"

datatype repoEntry = RepoFile | RepoDir bool "string option" "string option"

record world =
  dataListable :: bool
  dataEntries :: "(string \<times> dataEntry) list"
  repoListable :: bool
  repoEntries :: "(string \<times> repoEntry) list"
  locked :: "string list"
  now :: string
  indexWritable :: bool
  indexFile :: "Post list option"

text \<open>
  \<open>locked\<close> lists the paths on which \<open>os.RemoveAll\<close> fails; \<open>now\<close> is what
  \<open>time.Now().Format(...)\<close> yields; \<open>indexWritable\<close> says whether \<open>os.WriteFile\<close> of
  \<open>data/.pages/postsList.json\<close> succeeds, and \<open>indexFile\<close> is the list of records that file
  holds (\<open>json.MarshalIndent\<close> of a slice of structs of strings cannot fail).
\<close>

text \<open>
  A slice is a pointer to a backing array and a length; its capacity is the length of the
  backing array (every slice of the program starts at element 0 of its array).  The heap
  maps addresses to arrays, \<open>brk\<close> is the next free address.  \<open>posts\<close> and
  \<open>publicPosts\<close> are the two package variables; \<open>publicPosts\<close> is rebuilt from an empty
  slice literal each time and never shares an array with anything, so it is a list.
\<close>

record slice =
  ptr :: nat
  len :: nat

record state =
  world :: world
  heap :: "nat \<Rightarrow> Post list"
  brk :: nat
  posts :: slice
  publicPosts :: "Post list"

text \<open>
  What the program takes from outside the repository: the markdown renderer
  \<open>blackfriday.Run\<close>, \<open>sort.Slice\<close> (called with a comparison of elements; it permutes the
  slice in place), and the capacity the Go runtime picks when \<open>append\<close> has to grow a
  slice (from the old capacity and the length needed).
\<close>

record lib =
  render :: "string \<Rightarrow> string"
  sortSlice :: "(Post \<Rightarrow> Post \<Rightarrow> bool) \<Rightarrow> Post list \<Rightarrow> Post list"
  growCap :: "nat \<Rightarrow> nat \<Rightarrow> nat"

record config =
  PostDefaultState :: string
  AnaylzePostsOnStart :: bool

text \<open>
  A call returns a value, or ends the process (\<open>log.Fatalf\<close>), or never returns.
\<close>

datatype 'a outcome = Returns 'a | Exits | Hangs

datatype ioError = StatError | ReadDirError | WriteError

text \<open>Go's \<open>err != nil\<close>.\<close>

definition isErr :: "ioError option \<Rightarrow> bool" where
  "isErr err \<longleftrightarrow> err \<noteq> None"

subsection \<open>Slices\<close>

definition elems :: "state \<Rightarrow> slice \<Rightarrow> Post list" where
  "elems st s = take (len s) (heap st (ptr s))"

definition cap :: "state \<Rightarrow> slice \<Rightarrow> nat" where
  "cap st s = length (heap st (ptr s))"

text \<open>\<open>append(s, p)\<close>: in place when the capacity allows, else into a new array, whose
  capacity is at least the length needed and whose other elements are zero.\<close>

definition goAppend :: "lib \<Rightarrow> slice \<Rightarrow> Post \<Rightarrow> state \<Rightarrow> slice \<times> state" where
  "goAppend L s p st =
     (if len s < cap st s
      then (s\<lparr>len := len s + 1\<rparr>,
            st\<lparr>heap := (heap st)(ptr s := (heap st (ptr s))[len s := p])\<rparr>)
      else
        (let newcap = max (len s + 1) (growCap L (cap st s) (len s + 1)) in
         (\<lparr>ptr = brk st, len = len s + 1\<rparr>,
          st\<lparr>heap := (heap st)(brk st :=
                   elems st s @ [p] @ replicate (newcap - (len s + 1)) zeroPost),
             brk := brk st + 1\<rparr>)))"

text \<open>The position of the first element named \<open>name\<close>: the loops of \<open>updatePost\<close> and
  \<open>deletePost\<close> stop there.\<close>

fun indexOfName :: "string \<Rightarrow> Post list \<Rightarrow> nat option" where
  "indexOfName name [] = None"
| "indexOfName name (p # ps) =
     (if Name p = name then Some 0 else map_option Suc (indexOfName name ps))"

subsection \<open>The file system\<close>

definition removeData :: "string \<Rightarrow> world \<Rightarrow> bool \<times> world" where
  "removeData name w =
     (if dataDir @ name \<in> set (locked w) then (False, w)
      else (True, w\<lparr>dataEntries := filter (\<lambda>e. fst e \<noteq> name) (dataEntries w)\<rparr>))"

definition removeRepo :: "string \<Rightarrow> world \<Rightarrow> bool \<times> world" where
  "removeRepo name w =
     (if repoDir @ name \<in> set (locked w) then (False, w)
      else (True, w\<lparr>repoEntries := filter (\<lambda>e. fst e \<noteq> name) (repoEntries w)\<rparr>))"

definition writeIndex :: "Post list \<Rightarrow> world \<Rightarrow> ioError option \<times> world" where
  "writeIndex ps w =
     (if indexWritable w then (None, w\<lparr>indexFile := Some ps\<rparr>) else (Some WriteError, w))"

fun isDataDir :: "dataEntry \<Rightarrow> bool" where
  "isDataDir DataFile = False"
| "isDataDir (DataDir r) = True"

fun isRepoDir :: "repoEntry \<Rightarrow> bool" where
  "isRepoDir RepoFile = False"
| "isRepoDir (RepoDir c r d) = True"

text \<open>\<open>os.ReadFile(dataDir + name + "/README.md")\<close>.\<close>

fun readReadme :: "dataEntry \<Rightarrow> string option" where
  "readReadme DataFile = None"
| "readReadme (DataDir r) = r"

text \<open>\<open>os.ReadDir\<close> returns the entries sorted by file name.\<close>

definition readDir :: "(string \<times> 'e) list \<Rightarrow> (string \<times> 'e) list" where
  "readDir es = sort_key fst es"

subsection \<open>\<open>getLatestCommitDate\<close>, \<open>getPostInfo\<close>\<close>

definition getLatestCommitDate :: "world \<Rightarrow> string \<Rightarrow> string" where
  "getLatestCommitDate w name =
     (case map_of (repoEntries w) name of
        Some (RepoDir c r (Some output)) \<Rightarrow> TrimSpace output
      | _ \<Rightarrow> now w)"

text \<open>Lines 100 to 111 of \<open>getPostInfo\<close>: the state of a post from the first line of its
  document and the configured default.\<close>

text \<open>\<open>strings.Split(string(mdContent), "\n")[0]\<close>; the list that \<open>Split\<close> returns for a
  non-empty separator is never empty (\<open>strSplit_not_Nil\<close> below).\<close>

definition firstLineOf :: "string \<Rightarrow> string" where
  "firstLineOf mdContent = hd (strSplit mdContent ''\<newline>'')"

definition postState :: "string \<Rightarrow> string \<Rightarrow> string" where
  "postState defaultState mdContent =
     (let firstLine = firstLineOf mdContent in
      if hasPrefix firstLine ''<!--'' then
        (if strContains firstLine ''public'' then ''public''
         else if strContains firstLine ''private'' then ''private''
         else if strContains firstLine ''delete'' then ''delete''
         else defaultState)
      else defaultState)"

definition getPostInfo ::
  "lib \<Rightarrow> config \<Rightarrow> world \<Rightarrow> string \<Rightarrow> (Post \<times> ioError option) outcome" where
  "getPostInfo L cfg w name =
     (case map_of (dataEntries w) name of
        None \<Rightarrow> Returns (zeroPost, Some StatError)
      | Some entry \<Rightarrow>
          (case readReadme entry of
             None \<Rightarrow>
               Returns (\<lparr>Name = name, Title = '''', Body = '''', Banner = '''',
                          Mtime = getLatestCommitDate w name, State = ''private''\<rparr>, None)
           | Some mdContent \<Rightarrow>
               (let state = postState (PostDefaultState cfg) mdContent;
                    htmlContent = render L mdContent
                in case extractTitleAndBody htmlContent of
                     None \<Rightarrow> Hangs
                   | Some (title, body, banner) \<Rightarrow>
                       Returns (\<lparr>Name = name, Title = title, Body = body,
                                  Banner = dataDir @ name @ ''/'' @ banner,
                                  Mtime = getLatestCommitDate w name, State = state\<rparr>, None))))"

subsection \<open>\<open>sortPosts\<close>, \<open>deletePost\<close>, \<open>updatePost\<close>\<close>

text \<open>Go compares strings byte by byte, which is the lexicographic order of
  \<^typ>\<open>string\<close>.  \<open>sort.Slice\<close> permutes the elements of the slice inside its array.\<close>

definition mtimeLess :: "Post \<Rightarrow> Post \<Rightarrow> bool" where
  "mtimeLess a b = (Mtime a > Mtime b)"

definition sortPosts :: "lib \<Rightarrow> slice \<Rightarrow> state \<Rightarrow> slice \<times> state" where
  "sortPosts L s st =
     (s, st\<lparr>heap := (heap st)(ptr s :=
               sortSlice L mtimeLess (elems st s) @ drop (len s) (heap st (ptr s)))\<rparr>)"

text \<open>
  \<open>append(posts[:i], posts[i+1:]...)\<close> never needs a new array: it moves the elements
  after position \<open>i\<close> one place down inside the array and returns a slice one shorter.
  The element at the old last position stays where it is.  The results of the two
  \<open>os.RemoveAll\<close> calls are dropped.
\<close>

definition deletePost :: "string \<Rightarrow> slice \<Rightarrow> state \<Rightarrow> slice \<times> state" where
  "deletePost name s st =
     (let (s1, st1) =
            (case indexOfName name (elems st s) of
               None \<Rightarrow> (s, st)
             | Some i \<Rightarrow>
                 (s\<lparr>len := len s - 1\<rparr>,
                  st\<lparr>heap := (heap st)(ptr s :=
                          take i (heap st (ptr s)) @ drop (i + 1) (elems st s)
                            @ drop (len s - 1) (heap st (ptr s)))\<rparr>));
          w1 = snd (removeData name (world st1));
          w2 = snd (removeRepo name w1)
      in (s1, st1\<lparr>world := w2\<rparr>))"

definition publicOf :: "Post list \<Rightarrow> Post list" where
  "publicOf ps = filter (\<lambda>post. State post = ''public'') ps"

text \<open>\<open>updatePost\<close> works on its own copy \<open>s\<close> of the slice header it is given and
  returns the header it ends with; it assigns the package variable \<open>publicPosts\<close> but
  not \<open>posts\<close>.  The results of marshalling and writing are dropped.\<close>

definition updatePost ::
  "lib \<Rightarrow> config \<Rightarrow> string \<Rightarrow> slice \<Rightarrow> state \<Rightarrow> (slice \<times> state) outcome" where
  "updatePost L cfg name s st =
     (case getPostInfo L cfg (world st) name of
        Hangs \<Rightarrow> Hangs
      | Exits \<Rightarrow> Exits
      | Returns (post, err) \<Rightarrow>
          (let (s1, st1) =
                 (if isErr err \<or> State post = ''delete'' then deletePost name s st
                  else
                    (case indexOfName name (elems st s) of
                       Some i \<Rightarrow>
                         (s, st\<lparr>heap := (heap st)(ptr s := (heap st (ptr s))[i := post])\<rparr>)
                     | None \<Rightarrow> goAppend L s post st));
               (s2, st2) = sortPosts L s1 st1;
               st3 = st2\<lparr>publicPosts := publicOf (elems st2 s2)\<rparr>;
               st4 = st3\<lparr>world := snd (writeIndex (elems st3 s2) (world st3))\<rparr>
           in Returns (s2, st4)))"

subsection \<open>\<open>checkAllPosts\<close>\<close>

text \<open>The first loop: every directory of the listing goes through \<open>updatePost\<close>, whose
  result is assigned to \<open>posts\<close>.\<close>

fun updateLoop ::
  "lib \<Rightarrow> config \<Rightarrow> (string \<times> dataEntry) list \<Rightarrow> state \<Rightarrow> state outcome" where
  "updateLoop L cfg [] st = Returns st"
| "updateLoop L cfg ((name, entry) # files) st =
     (if isDataDir entry then
        (case updatePost L cfg name (posts st) st of
           Returns (s, st1) \<Rightarrow> updateLoop L cfg files (st1\<lparr>posts := s\<rparr>)
         | Exits \<Rightarrow> Exits
         | Hangs \<Rightarrow> Hangs)
      else updateLoop L cfg files st)"

text \<open>The second loop: every entry of the listing goes through \<open>getPostInfo\<close>, and the
  post is appended when \<open>err != nil\<close>.\<close>

fun appendLoop ::
  "lib \<Rightarrow> config \<Rightarrow> (string \<times> dataEntry) list \<Rightarrow> state \<Rightarrow> state outcome" where
  "appendLoop L cfg [] st = Returns st"
| "appendLoop L cfg ((name, entry) # files) st =
     (case getPostInfo L cfg (world st) name of
        Returns (post, err) \<Rightarrow>
          (if isErr err then
             (let (s, st1) = goAppend L (posts st) post st
              in appendLoop L cfg files (st1\<lparr>posts := s\<rparr>))
           else appendLoop L cfg files st)
      | Exits \<Rightarrow> Exits
      | Hangs \<Rightarrow> Hangs)"

definition checkAllPosts :: "lib \<Rightarrow> config \<Rightarrow> state \<Rightarrow> (ioError option \<times> state) outcome" where
  "checkAllPosts L cfg st =
     (if \<not> dataListable (world st) then Returns (Some ReadDirError, st)
      else
        (let files = readDir (dataEntries (world st)) in
         case updateLoop L cfg files st of
           Exits \<Rightarrow> Exits
         | Hangs \<Rightarrow> Hangs
         | Returns st1 \<Rightarrow>
             (case appendLoop L cfg files st1 of
                Exits \<Rightarrow> Exits
              | Hangs \<Rightarrow> Hangs
              | Returns st2 \<Rightarrow>
                  (let (s, st3) = sortPosts L (posts st2) st2;
                       st4 = st3\<lparr>posts := s\<rparr>;
                       st5 = st4\<lparr>publicPosts := publicOf (elems st4 (posts st4))\<rparr>;
                       (err, w) = writeIndex (elems st5 (posts st5)) (world st5)
                   in Returns (err, st5\<lparr>world := w\<rparr>)))))"

subsection \<open>\<open>extractGitData\<close>, \<open>extractAllGitData\<close>\<close>

text \<open>Each \<open>log.Fatalf\<close> of the source is an \<^const>\<open>Exits\<close> here.\<close>

definition extractGitData :: "string \<Rightarrow> world \<Rightarrow> world outcome" where
  "extractGitData name w =
     (let (removed, w1) =
            (if map_of (dataEntries w) name \<noteq> None then removeData name w else (True, w))
      in if \<not> removed then Exits
         else
           (case map_of (repoEntries w1) name of
              Some (RepoDir True readme date) \<Rightarrow>
                (let w2 = w1\<lparr>dataEntries := (name, DataDir readme) # dataEntries w1\<rparr>
                 in if dataDir @ name @ ''/.git'' \<in> set (locked w2) then Exits
                    else Returns w2)
            | _ \<Rightarrow> Exits))"

fun extractLoop :: "(string \<times> repoEntry) list \<Rightarrow> world \<Rightarrow> world outcome" where
  "extractLoop [] w = Returns w"
| "extractLoop ((name, entry) # files) w =
     (if isRepoDir entry then
        (case extractGitData name w of
           Returns w1 \<Rightarrow> extractLoop files w1
         | Exits \<Rightarrow> Exits
         | Hangs \<Rightarrow> Hangs)
      else extractLoop files w)"

definition extractAllGitData :: "world \<Rightarrow> world outcome" where
  "extractAllGitData w =
     (if \<not> repoListable w then Exits else extractLoop (readDir (repoEntries w)) w)"

subsection \<open>The two entry points\<close>

text \<open>\<open>gitUpdate\<close> (\<open>router.go\<close>, lines 122 to 129) is called after every request the git
  server has handled, with the path of the request and the \<open>gitName\<close> URL parameter.
  It calls \<open>updatePost(gitName, posts)\<close> as a statement: the slice that call returns is
  dropped.\<close>

definition gitUpdate :: "lib \<Rightarrow> config \<Rightarrow> string \<Rightarrow> string \<Rightarrow> state \<Rightarrow> state outcome" where
  "gitUpdate L cfg urlPath gitName st =
     (if suffix ''git-receive-pack'' urlPath then
        (case extractGitData gitName (world st) of
           Exits \<Rightarrow> Exits
         | Hangs \<Rightarrow> Hangs
         | Returns w \<Rightarrow>
             (case updatePost L cfg gitName (posts st) (st\<lparr>world := w\<rparr>) of
                Exits \<Rightarrow> Exits
              | Hangs \<Rightarrow> Hangs
              | Returns (s, st1) \<Rightarrow> Returns st1))
      else Returns st)"

text \<open>The full rebuild is the branch of \<open>AnaylzePosts\<close> for
  \<open>config.AnaylzePostsOnStart\<close>: \<open>extractAllGitData\<close>, then \<open>checkAllPosts\<close>, whose error
  \<open>AnaylzePosts\<close> drops.\<close>

definition fullRebuild :: "lib \<Rightarrow> config \<Rightarrow> state \<Rightarrow> state outcome" where
  "fullRebuild L cfg st =
     (case extractAllGitData (world st) of
        Exits \<Rightarrow> Exits
      | Hangs \<Rightarrow> Hangs
      | Returns w \<Rightarrow>
          (case checkAllPosts L cfg (st\<lparr>world := w\<rparr>) of
             Exits \<Rightarrow> Exits
           | Hangs \<Rightarrow> Hangs
           | Returns (err, st1) \<Rightarrow> Returns st1))"

text \<open>The state of the process when it starts: \<open>posts\<close> is the nil slice (no elements,
  capacity 0; address 0 holds the empty array), \<open>publicPosts\<close> is empty.\<close>

definition initState :: "world \<Rightarrow> state" where
  "initState w =
     \<lparr>world = w, heap = (\<lambda>a. []), brk = 1, posts = \<lparr>ptr = 0, len = 0\<rparr>, publicPosts = []\<rparr>"

text \<open>The index as a reader of the package variable \<open>posts\<close> sees it.\<close>

definition index :: "state \<Rightarrow> Post list" where
  "index st = elems st (posts st)"

subsection \<open>Sequences of operations\<close>

text \<open>Between two operations of the process the world may change in any way (a push
  lands in \<open>git/\<close>, time passes): \<open>Outside w\<close> replaces the world by \<open>w\<close>.\<close>

datatype event = Rebuild | Push string string | Outside world

fun step :: "lib \<Rightarrow> config \<Rightarrow> event \<Rightarrow> state \<Rightarrow> state outcome" where
  "step L cfg Rebuild st = fullRebuild L cfg st"
| "step L cfg (Push urlPath gitName) st = gitUpdate L cfg urlPath gitName st"
| "step L cfg (Outside w) st = Returns (st\<lparr>world := w\<rparr>)"

fun run :: "lib \<Rightarrow> config \<Rightarrow> event list \<Rightarrow> state \<Rightarrow> state outcome" where
  "run L cfg [] st = Returns st"
| "run L cfg (e # es) st =
     (case step L cfg e st of
        Returns st1 \<Rightarrow> run L cfg es st1
      | Exits \<Rightarrow> Exits
      | Hangs \<Rightarrow> Hangs)"

section \<open>Notions the properties are stated in\<close>

definition sortedDesc :: "Post list \<Rightarrow> bool" where
  "sortedDesc ps = sorted_wrt (\<lambda>a b. Mtime a \<ge> Mtime b) ps"

text \<open>What Go guarantees of every slice: the length is at most the capacity.  The
  address of a live array is below \<open>brk\<close>.\<close>

definition wellFormed :: "state \<Rightarrow> bool" where
  "wellFormed st \<longleftrightarrow> len (posts st) \<le> cap st (posts st) \<and> ptr (posts st) < brk st"

text \<open>
  The contract of \<open>sort.Slice\<close>, from the documentation of package \<open>sort\<close>: when
  \<open>less\<close> is a transitive ordering (if \<open>less a b\<close> and \<open>less b c\<close> then \<open>less a c\<close>; if
  neither \<open>less a b\<close> nor \<open>less b c\<close> then not \<open>less a c\<close>), the slice ends up as a
  permutation of itself in which no element is less than an element before it.  The
  documentation adds that the sort is not guaranteed to be stable.
\<close>

definition transitiveOrdering :: "('a \<Rightarrow> 'a \<Rightarrow> bool) \<Rightarrow> bool" where
  "transitiveOrdering lt \<longleftrightarrow>
     (\<forall>a. \<not> lt a a) \<and>
     (\<forall>a b c. lt a b \<longrightarrow> lt b c \<longrightarrow> lt a c) \<and>
     (\<forall>a b c. \<not> lt a b \<longrightarrow> \<not> lt b c \<longrightarrow> \<not> lt a c)"

definition sortSliceContract :: "((Post \<Rightarrow> Post \<Rightarrow> bool) \<Rightarrow> Post list \<Rightarrow> Post list) \<Rightarrow> bool" where
  "sortSliceContract srt \<longleftrightarrow>
     (\<forall>lt xs. transitiveOrdering lt \<longrightarrow>
        mset (srt lt xs) = mset xs \<and> sorted_wrt (\<lambda>a b. \<not> lt b a) (srt lt xs))"


section \<open>Concrete inputs\<close>

text \<open>Two sorts that meet the contract: insertion sort, which is stable, and insertion
  sort of the reversed list, which reverses the entries of equal key.\<close>

fun insertBy :: "('a \<Rightarrow> 'a \<Rightarrow> bool) \<Rightarrow> 'a \<Rightarrow> 'a list \<Rightarrow> 'a list" where
  "insertBy lt x [] = [x]"
| "insertBy lt x (y # ys) = (if lt y x then y # insertBy lt x ys else x # y # ys)"

fun insertionSort :: "('a \<Rightarrow> 'a \<Rightarrow> bool) \<Rightarrow> 'a list \<Rightarrow> 'a list" where
  "insertionSort lt [] = []"
| "insertionSort lt (x # xs) = insertBy lt x (insertionSort lt xs)"


text \<open>The document of the example in the specification and the HTML blackfriday renders
  it to; a document that asks for deletion; a public document.\<close>

definition mdExample :: string where
  "mdExample = ''# Title\<newline>\<newline>![img](a.png)\<newline>\<newline>First real paragraph.''"

definition htmlExample :: string where
  "htmlExample =
     ''<h1>Title</h1>\<newline>\<newline><p><img src=\"a.png\" alt=\"img\" /></p>\<newline>\<newline><p>First real paragraph.</p>\<newline>''"

definition mdDelete :: string where
  "mdDelete = ''<!-- delete -->''"

definition mdPublic :: string where
  "mdPublic = ''<!-- public -->\<newline>\<newline># Hello\<newline>''"

text \<open>A renderer that is fixed on these documents.\<close>

definition exRender :: "string \<Rightarrow> string" where
  "exRender md =
     (if md = mdExample then htmlExample
      else if md = mdDelete then ''<!-- delete -->\<newline>''
      else if md = mdPublic then ''<!-- public -->\<newline>\<newline><h1>Hello</h1>\<newline>''
      else '''')"

definition exLib :: lib where
  "exLib = \<lparr>render = exRender, sortSlice = insertionSort, growCap = (\<lambda>old needed. 2 * old)\<rparr>"

definition exCfg :: config where
  "exCfg = \<lparr>PostDefaultState = ''private'', AnaylzePostsOnStart = True\<rparr>"

text \<open>A world with one repository \<open>x\<close> and nothing under \<open>data/\<close> yet.\<close>

definition exWorld :: "string \<Rightarrow> world" where
  "exWorld readme =
     \<lparr>dataListable = True, dataEntries = [], repoListable = True,
      repoEntries = [(''x'', RepoDir True (Some readme) (Some ''2024-05-01 10:00:00\<newline>''))],
      locked = [], now = ''2024-06-01 12:00:00'', indexWritable = True, indexFile = None\<rparr>"

text \<open>A process starts, rebuilds its index from a public post \<open>x\<close>, then a push puts the
  deletion mark on the first line of the document of \<open>x\<close>, and \<open>gitUpdate\<close> runs for
  \<open>x\<close>.\<close>

definition exDeleteEvents :: "event list" where
  "exDeleteEvents =
     [Rebuild,
      Outside ((exWorld mdDelete)\<lparr>dataEntries := [(''x'', DataDir (Some mdPublic))]\<rparr>),
      Push ''/x/git-receive-pack'' ''x'']"

text \<open>A world with a repository \<open>a\<close> that cannot be cloned and a repository \<open>b\<close> that
  can.\<close>

definition exBrokenRepo :: world where
  "exBrokenRepo =
     \<lparr>dataListable = True, dataEntries = [], repoListable = True,
      repoEntries = [(''a'', RepoDir False None None),
                     (''b'', RepoDir True (Some mdPublic) (Some ''2024-05-01 10:00:00\<newline>''))],
      locked = [], now = ''2024-06-01 12:00:00'', indexWritable = True, indexFile = None\<rparr>"




text \<open>The public document is checked out under \<open>data/\<close>, and the index file cannot
  be written.\<close>

definition exUnwritable :: world where
  "exUnwritable =
     (exWorld mdPublic)\<lparr>dataEntries := [(''x'', DataDir (Some mdPublic))],
                         indexWritable := False\<rparr>"

text \<open>A world with two repositories, \<open>y\<close> committed a day after \<open>x\<close>; and the same
  world after a push has put a newer commit into \<open>x\<close>.\<close>

definition exTwoRepos :: "string \<Rightarrow> world" where
  "exTwoRepos dateOfX =
     \<lparr>dataListable = True, dataEntries = [], repoListable = True,
      repoEntries = [(''x'', RepoDir True (Some mdPublic) (Some dateOfX)),
                     (''y'', RepoDir True (Some mdPublic) (Some ''2024-05-02 10:00:00\<newline>''))],
      locked = [], now = ''2024-06-01 12:00:00'', indexWritable = True, indexFile = None\<rparr>"

definition exEvents :: "event list" where
  "exEvents =
     [Rebuild,
      Outside ((exTwoRepos ''2024-05-03 10:00:00\<newline>'')
                 \<lparr>dataEntries := [(''x'', DataDir (Some mdPublic)), (''y'', DataDir (Some mdPublic))]\<rparr>),
      Push ''/x/git-receive-pack'' ''x'']"

section \<open>Facts about the string functions\<close>

lemma strIndex_prefix: "strIndex s sub = Some i \<Longrightarrow> prefix sub (drop i s)"
proof (induction s arbitrary: i)
  case Nil
  then show ?case by (simp split: if_splits)
next
  case (Cons c cs)
  show ?case
  proof (cases "prefix sub (c # cs)")
    case True
    with Cons.prems show ?thesis by simp
  next
    case False
    with Cons.prems obtain j where "strIndex cs sub = Some j" "i = Suc j" by auto
    with Cons.IH show ?thesis by simp
  qed
qed

text \<open>\<open>strings.Contains\<close> holds exactly of the contiguous sublists.\<close>

lemma strContains_sublist: "strContains s sub \<longleftrightarrow> sublist sub s"
  unfolding strContains_def
proof (induction s)
  case Nil
  then show ?case by simp
next
  case (Cons c cs)
  then show ?case by (auto simp: sublist_Cons_right)
qed

lemma strIndex_char:
  "strIndex s [x] = (if x \<in> set s then Some (length (takeWhile (\<lambda>c. c \<noteq> x) s)) else None)"
  by (induction s) auto

lemma strSplit_not_Nil: "sep \<noteq> [] \<Longrightarrow> strSplit s sep \<noteq> []"
  by (subst strSplit.simps) (simp split: option.splits)

lemma strSplit_no_sep: "sep \<noteq> [] \<Longrightarrow> \<not> strContains s sep \<Longrightarrow> strSplit s sep = [s]"
  by (subst strSplit.simps) (simp add: strContains_def)

text \<open>The first element of \<open>strings.Split(mdContent, "\n")\<close> is the text before the first
  line feed.\<close>

lemma firstLineOf_takeWhile: "firstLineOf md = takeWhile (\<lambda>c. c \<noteq> CHR ''\<newline>'') md"
proof (cases "CHR ''\<newline>'' \<in> set md")
  case True
  have "take (length (takeWhile (\<lambda>c. c \<noteq> CHR ''\<newline>'') md)) md
          = takeWhile (\<lambda>c. c \<noteq> CHR ''\<newline>'') md"
    by (rule takeWhile_eq_take [symmetric])
  with True show ?thesis
    unfolding firstLineOf_def by (subst strSplit.simps) (simp add: strIndex_char)
next
  case False
  then have tw: "takeWhile (\<lambda>c. c \<noteq> CHR ''\<newline>'') md = md"
    by auto
  show ?thesis
    unfolding firstLineOf_def by (subst strSplit.simps) (simp add: strIndex_char False tw)
qed

text \<open>The slice \<open>htmlContent[index+4 : index+endIndex]\<close> of \<open>extractH1Title\<close> is in range:
  the closing tag cannot start inside the opening one.\<close>

lemma h1_end_ge_4:
  assumes "strIndex html ''<h1>'' = Some i" and "strIndex (drop i html) ''</h1>'' = Some e"
  shows "4 \<le> e"
proof -
  from assms(1) have "prefix ''<h1>'' (drop i html)" by (rule strIndex_prefix)
  then obtain rest where d: "drop i html = ''<h1>'' @ rest" by (auto simp: prefix_def)
  from assms(2) have p: "prefix ''</h1>'' (drop e (drop i html))" by (rule strIndex_prefix)
  consider "e = 0" | "e = 1" | "e = 2" | "e = 3" | "4 \<le> e" by linarith
  then show ?thesis
  proof cases
    case 1 with p d show ?thesis by simp
  next
    case 2 with p d show ?thesis by simp
  next
    case 3 with p d show ?thesis by (simp add: numeral_2_eq_2)
  next
    case 4 with p d show ?thesis by (simp add: numeral_3_eq_3)
  next
    case 5 then show ?thesis .
  qed
qed

text \<open>Without an \<open><img\<close> in the document there is no image source.\<close>

lemma extractFirstImage_no_img: "\<not> sublist ''<img'' html \<Longrightarrow> extractFirstImage html = ''''"
  by (simp add: extractFirstImage_def strSplit_no_sep strContains_sublist)

section \<open>Facts about sorting\<close>

lemma mset_insertBy: "mset (insertBy lt x ys) = add_mset x (mset ys)"
  by (induction ys) auto

lemma mset_insertionSort: "mset (insertionSort lt xs) = mset xs"
  by (induction xs) (auto simp: mset_insertBy)

lemma set_insertBy: "set (insertBy lt x ys) = insert x (set ys)"
  by (induction ys) auto

lemma sorted_insertBy:
  assumes "transitiveOrdering lt" and "sorted_wrt (\<lambda>a b. \<not> lt b a) ys"
  shows "sorted_wrt (\<lambda>a b. \<not> lt b a) (insertBy lt x ys)"
  using assms(2)
proof (induction ys)
  case Nil
  then show ?case by simp
next
  case (Cons y ys)
  from assms(1) have irrefl: "\<And>a. \<not> lt a a"
    and trans: "\<And>a b c. lt a b \<Longrightarrow> lt b c \<Longrightarrow> lt a c"
    and ntrans: "\<And>a b c. \<not> lt a b \<Longrightarrow> \<not> lt b c \<Longrightarrow> \<not> lt a c"
    unfolding transitiveOrdering_def by blast+
  show ?case
  proof (cases "lt y x")
    case True
    then have "\<not> lt x y" using irrefl trans by blast
    with True Cons show ?thesis by (auto simp: set_insertBy)
  next
    case False
    have "\<not> lt z x" if "z \<in> set ys" for z
    proof -
      from Cons.prems that have "\<not> lt z y" by simp
      with False show ?thesis by (rule ntrans [rotated])
    qed
    with False Cons.prems show ?thesis by auto
  qed
qed

lemma sorted_insertionSort:
  "transitiveOrdering lt \<Longrightarrow> sorted_wrt (\<lambda>a b. \<not> lt b a) (insertionSort lt xs)"
  by (induction xs) (auto simp: sorted_insertBy)

lemma insertionSort_contract: "sortSliceContract insertionSort"
  unfolding sortSliceContract_def by (simp add: mset_insertionSort sorted_insertionSort)


text \<open>The comparison of \<open>sortPosts\<close> is a transitive ordering, so the contract applies
  to it.\<close>

lemma mtimeLess_ordering: "transitiveOrdering mtimeLess"
  unfolding transitiveOrdering_def mtimeLess_def by auto

lemma contract_mtime:
  assumes "sortSliceContract srt"
  shows "mset (srt mtimeLess xs) = mset xs" and "sortedDesc (srt mtimeLess xs)"
    and "length (srt mtimeLess xs) = length xs" and "set (srt mtimeLess xs) = set xs"
proof -
  from assms mtimeLess_ordering
  have m: "mset (srt mtimeLess xs) = mset xs"
    and s: "sorted_wrt (\<lambda>a b. \<not> mtimeLess b a) (srt mtimeLess xs)"
    unfolding sortSliceContract_def by blast+
  show "mset (srt mtimeLess xs) = mset xs" by (rule m)
  have "(\<lambda>a b. \<not> mtimeLess b a) = (\<lambda>a b. Mtime a \<ge> Mtime b)"
    by (auto simp: mtimeLess_def fun_eq_iff)
  with s show "sortedDesc (srt mtimeLess xs)" by (simp add: sortedDesc_def)
  from m show "length (srt mtimeLess xs) = length xs" by (rule mset_eq_length)
  from m show "set (srt mtimeLess xs) = set xs" by (rule mset_eq_setD)
qed

lemma elems_sortPosts:
  assumes "sortSliceContract (sortSlice L)"
  shows "elems (snd (sortPosts L s st)) s = sortSlice L mtimeLess (elems st s)"
proof -
  have "length (sortSlice L mtimeLess (elems st s)) = length (elems st s)"
    using assms by (rule contract_mtime)
  moreover have "length (elems st s) \<le> len s" by (simp add: elems_def)
  moreover have "length (elems st s) < len s \<Longrightarrow> drop (len s) (heap st (ptr s)) = []"
    by (simp add: elems_def)
  ultimately show ?thesis
    by (cases "length (elems st s) < len s") (auto simp: sortPosts_def elems_def)
qed

section \<open>Facts about the operations on slices\<close>

lemma indexOfName_less: "indexOfName name xs = Some i \<Longrightarrow> i < length xs"
  by (induction xs arbitrary: i) (auto split: if_splits)

lemma sortedDesc_last:
  assumes "sortedDesc xs" and "x \<in> set xs"
  shows "Mtime x \<ge> Mtime (last xs)"
proof (cases xs rule: rev_cases)
  case Nil
  with assms show ?thesis by simp
next
  case (snoc ys y)
  with assms show ?thesis by (auto simp: sortedDesc_def sorted_wrt_append)
qed

lemma deletePost_effect:
  assumes "deletePost name s st = (s1, st1)" and "len s \<le> length (heap st (ptr s))"
  shows "ptr s1 = ptr s" and "brk st1 = brk st" and "posts st1 = posts st"
    and "publicPosts st1 = publicPosts st"
    and "\<And>b. b \<noteq> ptr s \<Longrightarrow> heap st1 b = heap st b"
    and "length (heap st1 (ptr s)) = length (heap st (ptr s))"
    and "(len s1 = len s \<and> heap st1 (ptr s) = heap st (ptr s)) \<or>
         (len s1 + 1 = len s \<and> set (elems st1 s1) \<subseteq> set (elems st s) \<and>
          drop (len s1) (heap st1 (ptr s)) = drop (len s1) (heap st (ptr s)))"
proof -
  let ?A = "heap st (ptr s)"
  show "ptr s1 = ptr s" "brk st1 = brk st" "posts st1 = posts st"
    "publicPosts st1 = publicPosts st" "\<And>b. b \<noteq> ptr s \<Longrightarrow> heap st1 b = heap st b"
    using assms(1) by (auto simp: deletePost_def Let_def split: option.splits)
  show "length (heap st1 (ptr s)) = length ?A"
  proof (cases "indexOfName name (elems st s)")
    case None
    with assms(1) show ?thesis by (auto simp: deletePost_def Let_def)
  next
    case (Some i)
    then have "i < length (elems st s)" by (rule indexOfName_less)
    with assms(2) have "i < len s" "len s \<le> length ?A" by (auto simp: elems_def)
    with Some assms(1) show ?thesis
      by (auto simp: deletePost_def Let_def elems_def)
  qed
  show "(len s1 = len s \<and> heap st1 (ptr s) = ?A) \<or>
        (len s1 + 1 = len s \<and> set (elems st1 s1) \<subseteq> set (elems st s) \<and>
         drop (len s1) (heap st1 (ptr s)) = drop (len s1) ?A)"
  proof (cases "indexOfName name (elems st s)")
    case None
    with assms(1) show ?thesis by (auto simp: deletePost_def Let_def)
  next
    case (Some i)
    then have "i < length (elems st s)" by (rule indexOfName_less)
    with assms(2) have i: "i < len s" and n: "len s \<le> length ?A" by (auto simp: elems_def)
    let ?A' = "take i ?A @ drop (i + 1) (take (len s) ?A) @ drop (len s - 1) ?A"
    from Some assms(1) have s1: "len s1 = len s - 1" "ptr s1 = ptr s"
      and h: "heap st1 (ptr s) = ?A'"
      by (auto simp: deletePost_def Let_def elems_def)
    have l: "length (take i ?A @ drop (i + 1) (take (len s) ?A)) = len s - 1"
      using i n by simp
    have t: "take (len s - 1) ?A' = take i ?A @ drop (i + 1) (take (len s) ?A)"
      using l by (metis append.assoc append_eq_conv_conj)
    have d: "drop (len s - 1) ?A' = drop (len s - 1) ?A"
      using l by (metis append.assoc append_eq_conv_conj)
    have "set (take i ?A) \<subseteq> set (take (len s) ?A)"
      using i by (simp add: set_take_subset_set_take)
    moreover have "set (drop (i + 1) (take (len s) ?A)) \<subseteq> set (take (len s) ?A)"
      by (rule set_drop_subset)
    ultimately have "set (take (len s - 1) ?A') \<subseteq> set (take (len s) ?A)"
      unfolding t by simp
    with s1 h d i show ?thesis by (simp add: elems_def)
  qed
qed

lemma goAppend_effect:
  assumes "goAppend L s p st = (s1, st1)" and "len s \<le> length (heap st (ptr s))"
    and "ptr s < brk st"
  shows "len s1 = len s + 1" and "len s1 \<le> length (heap st1 (ptr s1))"
    and "ptr s1 < brk st1" and "brk st \<le> brk st1" and "posts st1 = posts st"
    and "world st1 = world st" and "publicPosts st1 = publicPosts st"
    and "elems st1 s1 = elems st s @ [p]"
    and "(ptr s1 = ptr s \<and> length (heap st1 (ptr s)) = length (heap st (ptr s)) \<and>
          len s < length (heap st (ptr s))) \<or>
         (ptr s1 \<noteq> ptr s \<and> heap st1 (ptr s) = heap st (ptr s))"
    and "\<And>b. b < brk st \<Longrightarrow> b \<noteq> ptr s \<Longrightarrow> heap st1 b = heap st b"
proof -
  show "len s1 = len s + 1" "brk st \<le> brk st1" "posts st1 = posts st"
    "world st1 = world st" "publicPosts st1 = publicPosts st"
    using assms(1) by (auto simp: goAppend_def Let_def split: if_splits)
  show "ptr s1 < brk st1"
    using assms(1,3) by (auto simp: goAppend_def Let_def split: if_splits)
  show "\<And>b. b < brk st \<Longrightarrow> b \<noteq> ptr s \<Longrightarrow> heap st1 b = heap st b"
    using assms(1,3) by (auto simp: goAppend_def Let_def split: if_splits)
  show "len s1 \<le> length (heap st1 (ptr s1))"
    using assms(1,2) by (auto simp: goAppend_def Let_def cap_def elems_def split: if_splits)
  show "elems st1 s1 = elems st s @ [p]"
    using assms(1,2)
    by (auto simp: goAppend_def Let_def cap_def elems_def take_Suc_conv_app_nth
        split: if_splits)
  show "(ptr s1 = ptr s \<and> length (heap st1 (ptr s)) = length (heap st (ptr s)) \<and>
          len s < length (heap st (ptr s))) \<or>
         (ptr s1 \<noteq> ptr s \<and> heap st1 (ptr s) = heap st (ptr s))"
    using assms(1,3) by (auto simp: goAppend_def Let_def cap_def split: if_splits)
qed

lemma indexOfName_name: "indexOfName name xs = Some i \<Longrightarrow> Name (xs ! i) = name"
  by (induction xs arbitrary: i) (auto split: if_splits)

lemma indexOfName_absent:
  "indexOfName name xs = Some i \<Longrightarrow> distinct (map Name xs) \<Longrightarrow>
   name \<notin> Name ` set (take i xs @ drop (Suc i) xs)"
proof (induction xs arbitrary: i)
  case Nil
  then show ?case by simp
next
  case (Cons p ps)
  show ?case
  proof (cases "Name p = name")
    case True
    with Cons.prems show ?thesis by auto
  next
    case False
    with Cons.prems obtain j where j: "indexOfName name ps = Some j" "i = Suc j" by auto
    with Cons.prems(2) Cons.IH [of j] have "name \<notin> Name ` set (take j ps @ drop (Suc j) ps)"
      by simp
    with False j show ?thesis by auto
  qed
qed

lemma deletePost_elems:
  assumes "deletePost name s st = (s1, st1)" and "len s \<le> length (heap st (ptr s))"
  shows "elems st1 s1 =
           (case indexOfName name (elems st s) of
              None \<Rightarrow> elems st s
            | Some i \<Rightarrow> take i (elems st s) @ drop (Suc i) (elems st s))"
proof (cases "indexOfName name (elems st s)")
  case None
  with assms(1) show ?thesis by (auto simp: deletePost_def Let_def elems_def)
next
  case (Some i)
  let ?A = "heap st (ptr s)"
  from Some have "i < length (elems st s)" by (rule indexOfName_less)
  with assms(2) have i: "i < len s" and n: "len s \<le> length ?A" by (auto simp: elems_def)
  let ?A' = "take i ?A @ drop (i + 1) (take (len s) ?A) @ drop (len s - 1) ?A"
  from Some assms(1) have s1: "len s1 = len s - 1" "ptr s1 = ptr s"
    and h: "heap st1 (ptr s) = ?A'"
    by (auto simp: deletePost_def Let_def elems_def)
  have l: "length (take i ?A @ drop (i + 1) (take (len s) ?A)) = len s - 1"
    using i n by simp
  have t: "take (len s - 1) ?A' = take i ?A @ drop (i + 1) (take (len s) ?A)"
    using l by (metis append.assoc append_eq_conv_conj)
  have "take i (take (len s) ?A) = take i ?A" using i by (simp add: min_def)
  with t s1 h Some show ?thesis by (simp add: elems_def)
qed

lemma deletePost_world:
  "deletePost name s st = (s1, st1) \<Longrightarrow>
   world st1 = snd (removeRepo name (snd (removeData name (world st))))"
  by (auto simp: deletePost_def Let_def split: option.splits)

text \<open>What the first stage of updatePost (delete, replace or append) leaves behind, seen
  from the slice s the caller holds.\<close>

lemma stage1_effect:
  assumes "(if isErr err \<or> State post = ''delete'' then deletePost name s st
            else (case indexOfName name (elems st s) of
                    Some i \<Rightarrow> (s, st\<lparr>heap := (heap st)(ptr s := (heap st (ptr s))[i := post])\<rparr>)
                  | None \<Rightarrow> goAppend L s post st)) = (s1, st1)"
    and "len s \<le> length (heap st (ptr s))" and "ptr s < brk st"
  shows "len s1 \<le> length (heap st1 (ptr s1))" and "ptr s1 < brk st1"
    and "posts st1 = posts st" and "brk st \<le> brk st1"
    and "\<And>b. b < brk st \<Longrightarrow> b \<noteq> ptr s \<Longrightarrow> heap st1 b = heap st b"
    and "(ptr s1 = ptr s \<and> length (heap st1 (ptr s)) = length (heap st (ptr s)) \<and>
           (len s1 = len s \<or>
            (len s1 = len s + 1 \<and> len s < length (heap st (ptr s))) \<or>
            (len s1 + 1 = len s \<and> set (elems st1 s1) \<subseteq> set (elems st s) \<and>
             drop (len s1) (heap st1 (ptr s)) = drop (len s1) (heap st (ptr s))))) \<or>
         (ptr s1 \<noteq> ptr s \<and> heap st1 (ptr s) = heap st (ptr s))"
proof -
  consider (del) "isErr err \<or> State post = ''delete''"
    | (upd) i where "\<not> (isErr err \<or> State post = ''delete'')" "indexOfName name (elems st s) = Some i"
    | (app) "\<not> (isErr err \<or> State post = ''delete'')" "indexOfName name (elems st s) = None"
    by (cases "indexOfName name (elems st s)") auto
  then have "len s1 \<le> length (heap st1 (ptr s1)) \<and> ptr s1 < brk st1 \<and>
    posts st1 = posts st \<and> brk st \<le> brk st1 \<and>
    (\<forall>b. b < brk st \<longrightarrow> b \<noteq> ptr s \<longrightarrow> heap st1 b = heap st b) \<and>
    ((ptr s1 = ptr s \<and> length (heap st1 (ptr s)) = length (heap st (ptr s)) \<and>
           (len s1 = len s \<or>
            (len s1 = len s + 1 \<and> len s < length (heap st (ptr s))) \<or>
            (len s1 + 1 = len s \<and> set (elems st1 s1) \<subseteq> set (elems st s) \<and>
             drop (len s1) (heap st1 (ptr s)) = drop (len s1) (heap st (ptr s))))) \<or>
         (ptr s1 \<noteq> ptr s \<and> heap st1 (ptr s) = heap st (ptr s)))"
  proof cases
    case del
    with assms(1) have d: "deletePost name s st = (s1, st1)" by simp
    note e = deletePost_effect [OF d assms(2)]
    from e(7) have "len s1 \<le> len s" by auto
    with e assms(2,3) show ?thesis by auto
  next
    case upd
    with assms(1) have "s1 = s"
      and "st1 = st\<lparr>heap := (heap st)(ptr s := (heap st (ptr s))[i := post])\<rparr>"
      by auto
    with assms(2,3) show ?thesis by simp
  next
    case app
    with assms(1) have a: "goAppend L s post st = (s1, st1)" by simp
    note e = goAppend_effect [OF a assms(2,3)]
    from e show ?thesis by auto
  qed
  then show "len s1 \<le> length (heap st1 (ptr s1))" and "ptr s1 < brk st1"
    and "posts st1 = posts st" and "brk st \<le> brk st1"
    and "\<And>b. b < brk st \<Longrightarrow> b \<noteq> ptr s \<Longrightarrow> heap st1 b = heap st b"
    and "(ptr s1 = ptr s \<and> length (heap st1 (ptr s)) = length (heap st (ptr s)) \<and>
           (len s1 = len s \<or>
            (len s1 = len s + 1 \<and> len s < length (heap st (ptr s))) \<or>
            (len s1 + 1 = len s \<and> set (elems st1 s1) \<subseteq> set (elems st s) \<and>
             drop (len s1) (heap st1 (ptr s)) = drop (len s1) (heap st (ptr s))))) \<or>
         (ptr s1 \<noteq> ptr s \<and> heap st1 (ptr s) = heap st (ptr s))"
    by blast+
qed

lemma stage1_set:
  assumes "(if isErr err \<or> State post = ''delete'' then deletePost name s st
            else (case indexOfName name (elems st s) of
                    Some i \<Rightarrow> (s, st\<lparr>heap := (heap st)(ptr s := (heap st (ptr s))[i := post])\<rparr>)
                  | None \<Rightarrow> goAppend L s post st)) = (s1, st1)"
    and "len s \<le> length (heap st (ptr s))" and "ptr s < brk st"
  shows "set (elems st1 s1) \<subseteq>
           (if isErr err \<or> State post = ''delete'' then set (elems st s)
            else insert post (set (elems st s)))"
proof -
  consider (del) "isErr err \<or> State post = ''delete''"
    | (upd) i where "\<not> (isErr err \<or> State post = ''delete'')" "indexOfName name (elems st s) = Some i"
    | (app) "\<not> (isErr err \<or> State post = ''delete'')" "indexOfName name (elems st s) = None"
    by (cases "indexOfName name (elems st s)") auto
  then show ?thesis
  proof cases
    case del
    with assms(1) have d: "deletePost name s st = (s1, st1)" by simp
    have "set (elems st1 s1) \<subseteq> set (elems st s)"
      unfolding deletePost_elems [OF d assms(2)]
      by (auto split: option.splits dest: in_set_takeD in_set_dropD)
    with del show ?thesis by simp
  next
    case upd
    with assms(1) have "s1 = s"
      and "st1 = st\<lparr>heap := (heap st)(ptr s := (heap st (ptr s))[i := post])\<rparr>"
      by auto
    then have "elems st1 s1 = (elems st s)[i := post]"
      by (simp add: elems_def take_update_swap)
    with upd show ?thesis using set_update_subset_insert [of "elems st s" i post] by simp
  next
    case app
    with assms(1) have a: "goAppend L s post st = (s1, st1)" by simp
    from goAppend_effect(8) [OF a assms(2,3)] app show ?thesis by auto
  qed
qed


text \<open>Sorting the slice that the first stage left, seen from the slice the caller holds:
  the caller sees the sorted slice, or all but the last element of it, or the sorted slice
  followed by the last element it saw before, or what it saw before.\<close>

lemma sort_stage_view:
  assumes c: "sortSliceContract (sortSlice L)"
    and n: "len s \<le> length (heap st (ptr s))"
    and n1: "len s1 \<le> length (heap st1 (ptr s1))"
    and cases: "(ptr s1 = ptr s \<and> length (heap st1 (ptr s)) = length (heap st (ptr s)) \<and>
           (len s1 = len s \<or>
            (len s1 = len s + 1 \<and> len s < length (heap st (ptr s))) \<or>
            (len s1 + 1 = len s \<and> set (elems st1 s1) \<subseteq> set (elems st s) \<and>
             drop (len s1) (heap st1 (ptr s)) = drop (len s1) (heap st (ptr s))))) \<or>
         (ptr s1 \<noteq> ptr s \<and> heap st1 (ptr s) = heap st (ptr s))"
  shows "length (heap (snd (sortPosts L s1 st1)) (ptr s)) = length (heap st (ptr s))"
    and "elems (snd (sortPosts L s1 st1)) s = sortSlice L mtimeLess (elems st1 s1) \<or>
         elems (snd (sortPosts L s1 st1)) s = take (len s) (sortSlice L mtimeLess (elems st1 s1)) \<or>
         (elems (snd (sortPosts L s1 st1)) s
            = sortSlice L mtimeLess (elems st1 s1) @ [last (elems st s)] \<and>
          elems st s \<noteq> [] \<and> set (elems st1 s1) \<subseteq> set (elems st s)) \<or>
         elems (snd (sortPosts L s1 st1)) s = elems st s"
proof -
  let ?X = "elems st1 s1"
  let ?S = "sortSlice L mtimeLess ?X"
  let ?st2 = "snd (sortPosts L s1 st1)"
  have lX: "length ?X = len s1" using n1 by (simp add: elems_def)
  have lS: "length ?S = len s1" using contract_mtime(3) [OF c] lX by simp
  have h2: "heap ?st2 (ptr s1) = ?S @ drop (len s1) (heap st1 (ptr s1))"
    and h2o: "\<And>b. b \<noteq> ptr s1 \<Longrightarrow> heap ?st2 b = heap st1 b"
    by (simp_all add: sortPosts_def)
  from cases consider
      (same) "ptr s1 = ptr s" "length (heap st1 (ptr s)) = length (heap st (ptr s))" "len s1 = len s"
    | (grown) "ptr s1 = ptr s" "length (heap st1 (ptr s)) = length (heap st (ptr s))"
        "len s1 = len s + 1"
    | (shrunk) "ptr s1 = ptr s" "length (heap st1 (ptr s)) = length (heap st (ptr s))"
        "len s1 + 1 = len s" "set ?X \<subseteq> set (elems st s)"
        "drop (len s1) (heap st1 (ptr s)) = drop (len s1) (heap st (ptr s))"
    | (moved) "ptr s1 \<noteq> ptr s" "heap st1 (ptr s) = heap st (ptr s)"
    by blast
  then have "length (heap ?st2 (ptr s)) = length (heap st (ptr s)) \<and>
    (elems ?st2 s = ?S \<or> elems ?st2 s = take (len s) ?S \<or>
     (elems ?st2 s = ?S @ [last (elems st s)] \<and> elems st s \<noteq> [] \<and>
      set ?X \<subseteq> set (elems st s)) \<or>
     elems ?st2 s = elems st s)"
  proof cases
    case same
    then have "elems ?st2 s = ?S" using h2 lS by (simp add: elems_def)
    moreover have "length (heap ?st2 (ptr s)) = length (heap st (ptr s))"
      using same h2 lS n1 by simp
    ultimately show ?thesis by simp
  next
    case grown
    then have "elems ?st2 s = take (len s) ?S" using h2 lS by (simp add: elems_def)
    moreover have "length (heap ?st2 (ptr s)) = length (heap st (ptr s))"
      using grown h2 lS n1 by simp
    ultimately show ?thesis by simp
  next
    case shrunk
    let ?A = "heap st (ptr s)"
    from shrunk(3) n have pos: "len s1 < length ?A" by simp
    have e: "elems st s \<noteq> []" using shrunk(3) n by (auto simp: elems_def)
    have "length (elems st s) = len s" using n by (simp add: elems_def)
    with e have "last (elems st s) = elems st s ! (len s - 1)" by (simp add: last_conv_nth)
    also have "len s - 1 = len s1" using shrunk(3) by simp
    also have "elems st s ! len s1 = ?A ! len s1"
      using shrunk(3) by (simp add: elems_def)
    finally have lastE: "last (elems st s) = ?A ! len s1" .
    have d1: "len s - len s1 = 1" using shrunk(3) by simp
    have "take (len s) (heap ?st2 (ptr s)) = ?S @ take 1 (drop (len s1) ?A)"
      using shrunk(1,5) h2 lS d1 by simp
    also have "take 1 (drop (len s1) ?A) = [?A ! len s1]"
      using pos by (simp add: take_Suc_conv_app_nth)
    finally have el: "elems ?st2 s = ?S @ [last (elems st s)]"
      using lastE by (simp add: elems_def)
    moreover have "length (heap ?st2 (ptr s)) = length ?A"
      using shrunk(1,2) h2 lS n1 by simp
    ultimately show ?thesis using e shrunk(4) by simp
  next
    case moved
    then have "heap ?st2 (ptr s) = heap st (ptr s)" using h2o [of "ptr s"] by simp
    then show ?thesis by (simp add: elems_def)
  qed
  then show "length (heap ?st2 (ptr s)) = length (heap st (ptr s))"
    and "elems ?st2 s = ?S \<or> elems ?st2 s = take (len s) ?S \<or>
     (elems ?st2 s = ?S @ [last (elems st s)] \<and> elems st s \<noteq> [] \<and>
      set ?X \<subseteq> set (elems st s)) \<or>
     elems ?st2 s = elems st s"
    by simp_all
qed

lemma view_sorted:
  assumes c: "sortSliceContract (sortSlice L)" and sorted: "sortedDesc E"
    and v: "V = sortSlice L mtimeLess X \<or> V = take k (sortSlice L mtimeLess X) \<or>
            (V = sortSlice L mtimeLess X @ [last E] \<and> E \<noteq> [] \<and> set X \<subseteq> set E) \<or> V = E"
  shows "sortedDesc V"
proof -
  let ?S = "sortSlice L mtimeLess X"
  have sS: "sortedDesc ?S" using c by (rule contract_mtime)
  have setS: "set ?S = set X" using c by (rule contract_mtime)
  from v consider "V = ?S" | "V = take k ?S"
    | "V = ?S @ [last E]" "set X \<subseteq> set E" | "V = E"
    by blast
  then show ?thesis
  proof cases
    case 1
    with sS show ?thesis by simp
  next
    case 2
    with sS show ?thesis unfolding sortedDesc_def by simp
  next
    case 3
    have "Mtime x \<ge> Mtime (last E)" if "x \<in> set ?S" for x
      using that setS 3(2) sortedDesc_last [OF sorted] by auto
    with sS 3(1) show ?thesis by (auto simp: sortedDesc_def sorted_wrt_append)
  next
    case 4
    with sorted show ?thesis by simp
  qed
qed

lemma view_set:
  assumes c: "sortSliceContract (sortSlice L)"
    and v: "V = sortSlice L mtimeLess X \<or> V = take k (sortSlice L mtimeLess X) \<or>
            (V = sortSlice L mtimeLess X @ [last E] \<and> E \<noteq> [] \<and> set X \<subseteq> set E) \<or> V = E"
  shows "set V \<subseteq> set E \<union> set X"
proof -
  have setS: "set (sortSlice L mtimeLess X) = set X" using c by (rule contract_mtime)
  from v setS show ?thesis by (auto dest: in_set_takeD)
qed


section \<open>Facts about \<open>updatePost\<close>, \<open>gitUpdate\<close> and \<open>checkAllPosts\<close>\<close>

lemma updatePost_stages:
  assumes "updatePost L cfg name s st = Returns (s2, st4)"
  obtains post err s1 st1 where
    "getPostInfo L cfg (world st) name = Returns (post, err)"
    and "(if isErr err \<or> State post = ''delete'' then deletePost name s st
            else (case indexOfName name (elems st s) of
                    Some i \<Rightarrow> (s, st\<lparr>heap := (heap st)(ptr s := (heap st (ptr s))[i := post])\<rparr>)
                  | None \<Rightarrow> goAppend L s post st)) = (s1, st1)"
    and "s2 = s1"
    and "heap st4 = heap (snd (sortPosts L s1 st1))" and "brk st4 = brk st1"
    and "posts st4 = posts st1"
    and "publicPosts st4 = publicOf (elems (snd (sortPosts L s1 st1)) s1)"
    and "world st4 = snd (writeIndex (elems (snd (sortPosts L s1 st1)) s1) (world st1))"
proof -
  from assms obtain post err where g: "getPostInfo L cfg (world st) name = Returns (post, err)"
    by (auto simp: updatePost_def split: outcome.splits)
  obtain s1 st1 where s1: "(if isErr err \<or> State post = ''delete'' then deletePost name s st
            else (case indexOfName name (elems st s) of
                    Some i \<Rightarrow> (s, st\<lparr>heap := (heap st)(ptr s := (heap st (ptr s))[i := post])\<rparr>)
                  | None \<Rightarrow> goAppend L s post st)) = (s1, st1)"
    by (cases "(if isErr err \<or> State post = ''delete'' then deletePost name s st
            else (case indexOfName name (elems st s) of
                    Some i \<Rightarrow> (s, st\<lparr>heap := (heap st)(ptr s := (heap st (ptr s))[i := post])\<rparr>)
                  | None \<Rightarrow> goAppend L s post st))") blast
  from assms g s1 have "s2 = s1 \<and> heap st4 = heap (snd (sortPosts L s1 st1)) \<and>
    brk st4 = brk st1 \<and> posts st4 = posts st1 \<and>
    publicPosts st4 = publicOf (elems (snd (sortPosts L s1 st1)) s1) \<and>
    world st4 = snd (writeIndex (elems (snd (sortPosts L s1 st1)) s1) (world st1))"
    unfolding updatePost_def
    by (auto simp: Let_def sortPosts_def elems_def split: prod.splits)
  with g s1 that show thesis by blast
qed

text \<open>The post that \<open>updatePost\<close> stores is the one \<open>getPostInfo\<close> returned without error,
  and its state is not \<open>delete\<close>.\<close>

lemma stage1_stored:
  assumes "getPostInfo L cfg w name = Returns (post, err)"
    and "p \<in> (if isErr err \<or> State post = ''delete'' then E else insert post E)"
  shows "p \<in> E \<or> (getPostInfo L cfg w name = Returns (p, None) \<and> State p \<noteq> ''delete'')"
  using assms by (auto simp: isErr_def split: if_splits)

text \<open>\<open>updatePost\<close>, seen from the slice the caller passed (what \<open>gitUpdate\<close> is left
  with).\<close>

lemma updatePost_caller:
  assumes c: "sortSliceContract (sortSlice L)"
    and n: "len s \<le> length (heap st (ptr s))" and b: "ptr s < brk st"
    and u: "updatePost L cfg name s st = Returns (s2, st4)"
  shows "sortedDesc (elems st s) \<Longrightarrow> sortedDesc (elems st4 s)"
    and "len s \<le> length (heap st4 (ptr s))"
    and "ptr s < brk st4" and "posts st4 = posts st"
    and "\<And>p. p \<in> set (elems st4 s) \<Longrightarrow>
           p \<in> set (elems st s) \<or>
           (getPostInfo L cfg (world st) name = Returns (p, None) \<and> State p \<noteq> ''delete'')"
proof -
  from u obtain post err s1 st1 where
    g: "getPostInfo L cfg (world st) name = Returns (post, err)"
    and s1: "(if isErr err \<or> State post = ''delete'' then deletePost name s st
            else (case indexOfName name (elems st s) of
                    Some i \<Rightarrow> (s, st\<lparr>heap := (heap st)(ptr s := (heap st (ptr s))[i := post])\<rparr>)
                  | None \<Rightarrow> goAppend L s post st)) = (s1, st1)"
    and h: "heap st4 = heap (snd (sortPosts L s1 st1))" and k: "brk st4 = brk st1"
    and p: "posts st4 = posts st1"
    by (rule updatePost_stages)
  note e = stage1_effect [OF s1 n b]
  note q = sort_stage_view [OF c n e(1) e(6)]
  from h have v: "elems st4 s = elems (snd (sortPosts L s1 st1)) s" by (simp add: elems_def)
  show "sortedDesc (elems st4 s)" if "sortedDesc (elems st s)"
    unfolding v using c that q(2) by (rule view_sorted)
  from q(1) h n show "len s \<le> length (heap st4 (ptr s))" by simp
  from e(4) k b show "ptr s < brk st4" by simp
  from e(3) p show "posts st4 = posts st" by simp
  show "p \<in> set (elems st s) \<or>
        (getPostInfo L cfg (world st) name = Returns (p, None) \<and> State p \<noteq> ''delete'')"
    if "p \<in> set (elems st4 s)" for p
  proof -
    have "set (elems st4 s) \<subseteq> set (elems st s) \<union> set (elems st1 s1)"
      unfolding v using c q(2) by (rule view_set)
    with that stage1_set [OF s1 n b]
    have "p \<in> (if isErr err \<or> State post = ''delete'' then set (elems st s)
                else insert post (set (elems st s)))"
      by (auto split: if_splits)
    with g show ?thesis by (rule stage1_stored)
  qed
qed

text \<open>\<open>updatePost\<close>, seen from the slice it returns (what \<open>checkAllPosts\<close> assigns to
  \<open>posts\<close>).\<close>

lemma updatePost_result:
  assumes c: "sortSliceContract (sortSlice L)"
    and n: "len s \<le> length (heap st (ptr s))" and b: "ptr s < brk st"
    and u: "updatePost L cfg name s st = Returns (s2, st4)"
  shows "len s2 \<le> length (heap st4 (ptr s2))" and "ptr s2 < brk st4"
    and "sortedDesc (elems st4 s2)" and "publicPosts st4 = publicOf (elems st4 s2)"
    and "\<And>p. p \<in> set (elems st4 s2) \<Longrightarrow>
           p \<in> set (elems st s) \<or>
           (getPostInfo L cfg (world st) name = Returns (p, None) \<and> State p \<noteq> ''delete'')"
proof -
  from u obtain post err s1 st1 where
    g: "getPostInfo L cfg (world st) name = Returns (post, err)"
    and s1: "(if isErr err \<or> State post = ''delete'' then deletePost name s st
            else (case indexOfName name (elems st s) of
                    Some i \<Rightarrow> (s, st\<lparr>heap := (heap st)(ptr s := (heap st (ptr s))[i := post])\<rparr>)
                  | None \<Rightarrow> goAppend L s post st)) = (s1, st1)"
    and s2: "s2 = s1"
    and h: "heap st4 = heap (snd (sortPosts L s1 st1))" and k: "brk st4 = brk st1"
    and pp: "publicPosts st4 = publicOf (elems (snd (sortPosts L s1 st1)) s1)"
    by (rule updatePost_stages)
  note e = stage1_effect [OF s1 n b]
  have el: "elems st4 s2 = sortSlice L mtimeLess (elems st1 s1)"
    using elems_sortPosts [OF c, of s1 st1] h s2 by (simp add: elems_def)
  have "length (elems st1 s1) = len s1" using e(1) by (simp add: elems_def)
  then have "length (sortSlice L mtimeLess (elems st1 s1)) = len s1"
    using contract_mtime(3) [OF c] by simp
  with h s2 e(1) show "len s2 \<le> length (heap st4 (ptr s2))"
    by (simp add: sortPosts_def)
  from e(2) k s2 show "ptr s2 < brk st4" by simp
  from el contract_mtime(2) [OF c] show "sortedDesc (elems st4 s2)" by simp
  from pp h s2 show "publicPosts st4 = publicOf (elems st4 s2)" by (simp add: elems_def)
  show "p \<in> set (elems st s) \<or>
        (getPostInfo L cfg (world st) name = Returns (p, None) \<and> State p \<noteq> ''delete'')"
    if "p \<in> set (elems st4 s2)" for p
  proof -
    from that el contract_mtime(4) [OF c] have "p \<in> set (elems st1 s1)" by simp
    with stage1_set [OF s1 n b]
    have "p \<in> (if isErr err \<or> State post = ''delete'' then set (elems st s)
                else insert post (set (elems st s)))"
      by (auto split: if_splits)
    with g show ?thesis by (rule stage1_stored)
  qed
qed

lemma gitUpdate_sorted:
  assumes c: "sortSliceContract (sortSlice L)" and wf: "wellFormed st"
    and sorted: "sortedDesc (index st)"
    and g: "gitUpdate L cfg urlPath gitName st = Returns st'"
  shows "wellFormed st' \<and> sortedDesc (index st')"
proof (cases "suffix ''git-receive-pack'' urlPath")
  case False
  with g have "st' = st" by (simp add: gitUpdate_def)
  with wf sorted show ?thesis by simp
next
  case True
  with g obtain w s2 where w: "extractGitData gitName (world st) = Returns w"
    and u: "updatePost L cfg gitName (posts st) (st\<lparr>world := w\<rparr>) = Returns (s2, st')"
    by (auto simp: gitUpdate_def split: outcome.splits)
  let ?st = "st\<lparr>world := w\<rparr>"
  from wf have n: "len (posts st) \<le> length (heap ?st (ptr (posts st)))"
    and b: "ptr (posts st) < brk ?st"
    by (simp_all add: wellFormed_def cap_def)
  from sorted have s: "sortedDesc (elems ?st (posts st))" by (simp add: index_def elems_def)
  note r = updatePost_caller [OF c n b u]
  from r(4) have p: "posts st' = posts st" by simp
  with r(1) [OF s] r(2,3) show ?thesis by (simp add: wellFormed_def cap_def index_def)
qed

lemma updateLoop_wellFormed:
  assumes c: "sortSliceContract (sortSlice L)"
  shows "wellFormed st \<Longrightarrow> updateLoop L cfg files st = Returns st' \<Longrightarrow> wellFormed st'"
proof (induction files arbitrary: st)
  case Nil
  then show ?case by simp
next
  case (Cons f files)
  obtain name entry where f: "f = (name, entry)" by (cases f)
  show ?case
  proof (cases "isDataDir entry")
    case False
    with Cons f show ?thesis by simp
  next
    case True
    with Cons.prems(2) f obtain s st1 where
      u: "updatePost L cfg name (posts st) st = Returns (s, st1)"
      and r: "updateLoop L cfg files (st1\<lparr>posts := s\<rparr>) = Returns st'"
      by (auto split: outcome.splits)
    from Cons.prems(1) have n: "len (posts st) \<le> length (heap st (ptr (posts st)))"
      and b: "ptr (posts st) < brk st"
      by (simp_all add: wellFormed_def cap_def)
    note q = updatePost_result [OF c n b u]
    from q(1,2) have "wellFormed (st1\<lparr>posts := s\<rparr>)" by (simp add: wellFormed_def cap_def)
    then show ?thesis using r by (rule Cons.IH)
  qed
qed

lemma appendLoop_wellFormed:
  "wellFormed st \<Longrightarrow> appendLoop L cfg files st = Returns st' \<Longrightarrow> wellFormed st'"
proof (induction files arbitrary: st)
  case Nil
  then show ?case by simp
next
  case (Cons f files)
  obtain name entry where f: "f = (name, entry)" by (cases f)
  from Cons.prems(2) f obtain post err where
    g: "getPostInfo L cfg (world st) name = Returns (post, err)"
    by (auto split: outcome.splits)
  show ?case
  proof (cases "isErr err")
    case False
    with Cons f g show ?thesis by simp
  next
    case True
    obtain s st1 where a: "goAppend L (posts st) post st = (s, st1)"
      by (cases "goAppend L (posts st) post st")
    with True g f Cons.prems(2) have r: "appendLoop L cfg files (st1\<lparr>posts := s\<rparr>) = Returns st'"
      by simp
    from Cons.prems(1) have n: "len (posts st) \<le> length (heap st (ptr (posts st)))"
      and b: "ptr (posts st) < brk st"
      by (simp_all add: wellFormed_def cap_def)
    note e = goAppend_effect [OF a n b]
    from e(2,3) have "wellFormed (st1\<lparr>posts := s\<rparr>)" by (simp add: wellFormed_def cap_def)
    then show ?thesis using r by (rule Cons.IH)
  qed
qed

lemma checkAllPosts_sorted:
  assumes c: "sortSliceContract (sortSlice L)" and wf: "wellFormed st"
    and sorted: "sortedDesc (index st)"
    and r: "checkAllPosts L cfg st = Returns (err, st')"
  shows "wellFormed st' \<and> sortedDesc (index st')"
proof (cases "dataListable (world st)")
  case False
  with r have "st' = st" by (simp add: checkAllPosts_def)
  with wf sorted show ?thesis by simp
next
  case True
  let ?files = "readDir (dataEntries (world st))"
  from True r obtain st1 st2 where
    l1: "updateLoop L cfg ?files st = Returns st1"
    and l2: "appendLoop L cfg ?files st1 = Returns st2"
    and h: "heap st' = heap (snd (sortPosts L (posts st2) st2))"
    and p: "posts st' = posts st2" and k: "brk st' = brk st2"
    by (auto simp: checkAllPosts_def Let_def sortPosts_def split: outcome.splits prod.splits)
  from wf l1 have "wellFormed st1" by (rule updateLoop_wellFormed [OF c])
  then have wf2: "wellFormed st2" using l2 by (rule appendLoop_wellFormed)
  have el: "index st' = sortSlice L mtimeLess (elems st2 (posts st2))"
    using elems_sortPosts [OF c, of "posts st2" st2] h p by (simp add: index_def elems_def)
  from wf2 have "length (elems st2 (posts st2)) = len (posts st2)"
    by (simp add: wellFormed_def cap_def elems_def)
  then have "length (sortSlice L mtimeLess (elems st2 (posts st2))) = len (posts st2)"
    using contract_mtime(3) [OF c] by simp
  with wf2 h p k have "wellFormed st'"
    by (simp add: wellFormed_def cap_def sortPosts_def)
  moreover from el contract_mtime(2) [OF c] have "sortedDesc (index st')" by simp
  ultimately show ?thesis ..
qed

lemma fullRebuild_sorted:
  assumes c: "sortSliceContract (sortSlice L)" and wf: "wellFormed st"
    and sorted: "sortedDesc (index st)"
    and r: "fullRebuild L cfg st = Returns st'"
  shows "wellFormed st' \<and> sortedDesc (index st')"
proof -
  from r obtain w err where "checkAllPosts L cfg (st\<lparr>world := w\<rparr>) = Returns (err, st')"
    by (auto simp: fullRebuild_def split: outcome.splits)
  moreover from wf have "wellFormed (st\<lparr>world := w\<rparr>)" by (simp add: wellFormed_def cap_def)
  moreover from sorted have "sortedDesc (index (st\<lparr>world := w\<rparr>))"
    by (simp add: index_def elems_def)
  ultimately show ?thesis using checkAllPosts_sorted [OF c] by blast
qed

lemma step_sorted:
  assumes "sortSliceContract (sortSlice L)" and "wellFormed st" and "sortedDesc (index st)"
    and "step L cfg e st = Returns st'"
  shows "wellFormed st' \<and> sortedDesc (index st')"
proof (cases e)
  case Rebuild
  with assms(4) have "fullRebuild L cfg st = Returns st'" by simp
  with assms(1-3) show ?thesis by (rule fullRebuild_sorted)
next
  case (Push urlPath gitName)
  with assms(4) have "gitUpdate L cfg urlPath gitName st = Returns st'" by simp
  with assms(1-3) show ?thesis by (rule gitUpdate_sorted)
next
  case (Outside w)
  with assms show ?thesis by (auto simp: wellFormed_def cap_def index_def elems_def)
qed

text \<open>The full rebuild does leave \<open>publicPosts\<close> as the public posts of the index it
  assigns, and so does \<open>updatePost\<close> for the slice it returns (\<open>updatePost_result\<close> above).\<close>

lemma checkAllPosts_public:
  assumes "dataListable (world st)" and "checkAllPosts L cfg st = Returns (err, st')"
  shows "publicPosts st' = publicOf (index st')"
  using assms
  by (auto simp: checkAllPosts_def Let_def sortPosts_def index_def elems_def
      split: outcome.splits prod.splits)

section \<open>What the incremental update does keep\<close>

text \<open>The states that \<open>getPostInfo\<close> gives.\<close>

lemma postState_values:
  "postState d md = ''public'' \<or> postState d md = ''private'' \<or> postState d md = ''delete'' \<or>
   postState d md = d"
  by (simp add: postState_def Let_def)

lemma getPostInfo_state:
  assumes "getPostInfo L cfg w name = Returns (p, None)"
  shows "State p = ''public'' \<or> State p = ''private'' \<or> State p = ''delete'' \<or>
         State p = PostDefaultState cfg"
proof -
  from assms obtain entry where e: "map_of (dataEntries w) name = Some entry"
    by (auto simp: getPostInfo_def split: option.splits)
  show ?thesis
  proof (cases "readReadme entry")
    case None
    with assms e show ?thesis by (auto simp: getPostInfo_def)
  next
    case (Some md)
    with assms e have "State p = postState (PostDefaultState cfg) md"
      by (auto simp: getPostInfo_def Let_def split: option.splits)
    with postState_values [of "PostDefaultState cfg" md] show ?thesis by auto
  qed
qed

text \<open>With a default state that is one of the three states, neither the slice that
  \<open>updatePost\<close> returns nor the index that \<open>gitUpdate\<close> leaves holds a record of another
  state than \<open>public\<close> and \<open>private\<close>, if the index held none before.\<close>

lemma stored_state:
  assumes "PostDefaultState cfg = ''public'' \<or> PostDefaultState cfg = ''private'' \<or>
           PostDefaultState cfg = ''delete''"
    and "\<forall>p \<in> E. State p = ''public'' \<or> State p = ''private''"
    and "p \<in> E \<or> (getPostInfo L cfg w name = Returns (p, None) \<and> State p \<noteq> ''delete'')"
  shows "State p = ''public'' \<or> State p = ''private''"
proof (cases "p \<in> E")
  case True
  with assms(2) show ?thesis by blast
next
  case False
  with assms(3) have g: "getPostInfo L cfg w name = Returns (p, None)"
    and d: "State p \<noteq> ''delete''" by blast+
  from getPostInfo_state [OF g] assms(1) d show ?thesis by auto
qed

lemma updatePost_states:
  assumes "sortSliceContract (sortSlice L)"
    and "len s \<le> length (heap st (ptr s))" and "ptr s < brk st"
    and "PostDefaultState cfg = ''public'' \<or> PostDefaultState cfg = ''private'' \<or>
         PostDefaultState cfg = ''delete''"
    and "\<forall>p \<in> set (elems st s). State p = ''public'' \<or> State p = ''private''"
    and "updatePost L cfg name s st = Returns (s2, st4)"
  shows "\<forall>p \<in> set (elems st4 s2). State p = ''public'' \<or> State p = ''private''"
proof
  fix p assume "p \<in> set (elems st4 s2)"
  then have "p \<in> set (elems st s) \<or>
      (getPostInfo L cfg (world st) name = Returns (p, None) \<and> State p \<noteq> ''delete'')"
    by (rule updatePost_result(5) [OF assms(1,2,3,6)])
  with assms(4,5) show "State p = ''public'' \<or> State p = ''private''" by (rule stored_state)
qed

lemma gitUpdate_states:
  assumes c: "sortSliceContract (sortSlice L)" and wf: "wellFormed st"
    and d: "PostDefaultState cfg = ''public'' \<or> PostDefaultState cfg = ''private'' \<or>
            PostDefaultState cfg = ''delete''"
    and inv: "\<forall>p \<in> set (index st). State p = ''public'' \<or> State p = ''private''"
    and g: "gitUpdate L cfg urlPath gitName st = Returns st'"
  shows "\<forall>p \<in> set (index st'). State p = ''public'' \<or> State p = ''private''"
proof (cases "suffix ''git-receive-pack'' urlPath")
  case False
  with g have "st' = st" by (simp add: gitUpdate_def)
  with inv show ?thesis by simp
next
  case True
  with g obtain w s2 where w: "extractGitData gitName (world st) = Returns w"
    and u: "updatePost L cfg gitName (posts st) (st\<lparr>world := w\<rparr>) = Returns (s2, st')"
    by (auto simp: gitUpdate_def split: outcome.splits)
  let ?st = "st\<lparr>world := w\<rparr>"
  from wf have n: "len (posts st) \<le> length (heap ?st (ptr (posts st)))"
    and b: "ptr (posts st) < brk ?st"
    by (simp_all add: wellFormed_def cap_def)
  note r = updatePost_caller [OF c n b u]
  from inv have inv': "\<forall>p \<in> set (elems ?st (posts st)). State p = ''public'' \<or> State p = ''private''"
    by (simp add: index_def elems_def)
  show ?thesis
  proof
    fix p assume "p \<in> set (index st')"
    with r(4) have "p \<in> set (elems st' (posts st))" by (simp add: index_def)
    then have "p \<in> set (elems ?st (posts st)) \<or>
        (getPostInfo L cfg (world ?st) gitName = Returns (p, None) \<and> State p \<noteq> ''delete'')"
      by (rule r(5))
    with d inv' show "State p = ''public'' \<or> State p = ''private''" by (rule stored_state)
  qed
qed

text \<open>When the post is to be deleted, the slice that \<open>updatePost\<close> returns and
  \<open>publicPosts\<close> hold no entry of that name (names being unique before), and both
  directories are gone unless \<open>os.RemoveAll\<close> fails on them.\<close>

lemma indexOfName_None: "indexOfName name xs = None \<Longrightarrow> name \<notin> Name ` set xs"
  by (induction xs) (auto split: if_splits)

lemma removeData_gone:
  "dataDir @ name \<notin> set (locked w) \<Longrightarrow>
   map_of (dataEntries (snd (removeData name w))) name = None"
  by (auto simp: removeData_def map_of_eq_None_iff)

lemma removeRepo_gone:
  "repoDir @ name \<notin> set (locked w) \<Longrightarrow>
   map_of (repoEntries (snd (removeRepo name w))) name = None"
  by (auto simp: removeRepo_def map_of_eq_None_iff)

lemma updatePost_removes_deleted:
  assumes c: "sortSliceContract (sortSlice L)"
    and n: "len s \<le> length (heap st (ptr s))" and b: "ptr s < brk st"
    and dist: "distinct (map Name (elems st s))"
    and g: "getPostInfo L cfg (world st) name = Returns (post, err)"
    and del: "isErr err \<or> State post = ''delete''"
    and u: "updatePost L cfg name s st = Returns (s2, st4)"
  shows "name \<notin> Name ` set (elems st4 s2)"
    and "name \<notin> Name ` set (publicPosts st4)"
    and "dataDir @ name \<notin> set (locked (world st)) \<Longrightarrow>
           map_of (dataEntries (world st4)) name = None"
    and "repoDir @ name \<notin> set (locked (world st)) \<Longrightarrow>
           map_of (repoEntries (world st4)) name = None"
proof -
  from u obtain post' err' s1 st1 where
    g': "getPostInfo L cfg (world st) name = Returns (post', err')"
    and s1: "(if isErr err' \<or> State post' = ''delete'' then deletePost name s st
            else (case indexOfName name (elems st s) of
                    Some i \<Rightarrow> (s, st\<lparr>heap := (heap st)(ptr s := (heap st (ptr s))[i := post'])\<rparr>)
                  | None \<Rightarrow> goAppend L s post' st)) = (s1, st1)"
    and s2: "s2 = s1"
    and h: "heap st4 = heap (snd (sortPosts L s1 st1))"
    and pp: "publicPosts st4 = publicOf (elems (snd (sortPosts L s1 st1)) s1)"
    and w4: "world st4 = snd (writeIndex (elems (snd (sortPosts L s1 st1)) s1) (world st1))"
    by (rule updatePost_stages)
  from g g' del s1 have d: "deletePost name s st = (s1, st1)" by simp
  have "name \<notin> Name ` set (elems st1 s1)"
  proof (cases "indexOfName name (elems st s)")
    case None
    with deletePost_elems [OF d n] indexOfName_None [OF None] show ?thesis by simp
  next
    case (Some i)
    with deletePost_elems [OF d n] indexOfName_absent [OF Some dist] show ?thesis by simp
  qed
  moreover have el: "elems st4 s2 = sortSlice L mtimeLess (elems st1 s1)"
    using elems_sortPosts [OF c, of s1 st1] h s2 by (simp add: elems_def)
  ultimately show 1: "name \<notin> Name ` set (elems st4 s2)"
    using contract_mtime(4) [OF c] by simp
  from pp h s2 have "publicPosts st4 = publicOf (elems st4 s2)" by (simp add: elems_def)
  with 1 show "name \<notin> Name ` set (publicPosts st4)" by (auto simp: publicOf_def)
  have w1: "world st1 = snd (removeRepo name (snd (removeData name (world st))))"
    using d by (rule deletePost_world)
  show "map_of (dataEntries (world st4)) name = None"
    if "dataDir @ name \<notin> set (locked (world st))"
    using removeData_gone [OF that] w4 w1
    by (simp add: writeIndex_def removeRepo_def)
  show "map_of (repoEntries (world st4)) name = None"
    if "repoDir @ name \<notin> set (locked (world st))"
  proof -
    from that have "repoDir @ name \<notin> set (locked (snd (removeData name (world st))))"
      by (simp add: removeData_def)
    from removeRepo_gone [OF this] w4 w1 show ?thesis by (simp add: writeIndex_def)
  qed
qed

text \<open>\<open>updatePost\<close> returns in the same way whether or not the index file can be written;
  when it cannot, the file keeps what it held.  \<open>checkAllPosts\<close> returns the write error.\<close>

lemma updatePost_unwritable:
  assumes "\<not> indexWritable (world st)"
    and "updatePost L cfg name s st = Returns (s2, st4)"
  shows "indexFile (world st4) = indexFile (world st)" and "\<not> indexWritable (world st4)"
proof -
  from assms(2) obtain post err s1 st1 where
    s1: "(if isErr err \<or> State post = ''delete'' then deletePost name s st
            else (case indexOfName name (elems st s) of
                    Some i \<Rightarrow> (s, st\<lparr>heap := (heap st)(ptr s := (heap st (ptr s))[i := post])\<rparr>)
                  | None \<Rightarrow> goAppend L s post st)) = (s1, st1)"
    and w4: "world st4 = snd (writeIndex (elems (snd (sortPosts L s1 st1)) s1) (world st1))"
    by (rule updatePost_stages)
  from s1 have "indexWritable (world st1) = indexWritable (world st) \<and>
      indexFile (world st1) = indexFile (world st)"
    by (auto simp: deletePost_def goAppend_def removeData_def removeRepo_def Let_def
        split: if_splits option.splits)
  with assms(1) w4 show "indexFile (world st4) = indexFile (world st)"
    and "\<not> indexWritable (world st4)"
    by (simp_all add: writeIndex_def)
qed

lemma updateLoop_unwritable:
  "\<not> indexWritable (world st) \<Longrightarrow> updateLoop L cfg files st = Returns st' \<Longrightarrow>
   \<not> indexWritable (world st')"
proof (induction files arbitrary: st)
  case Nil
  then show ?case by simp
next
  case (Cons f files)
  obtain name entry where f: "f = (name, entry)" by (cases f)
  show ?case
  proof (cases "isDataDir entry")
    case False
    with Cons f show ?thesis by simp
  next
    case True
    with Cons.prems(2) f obtain s st1 where
      u: "updatePost L cfg name (posts st) st = Returns (s, st1)"
      and r: "updateLoop L cfg files (st1\<lparr>posts := s\<rparr>) = Returns st'"
      by (auto split: outcome.splits)
    from updatePost_unwritable(2) [OF Cons.prems(1) u]
    have "\<not> indexWritable (world (st1\<lparr>posts := s\<rparr>))" by simp
    then show ?thesis using r by (rule Cons.IH)
  qed
qed

lemma appendLoop_unwritable:
  "\<not> indexWritable (world st) \<Longrightarrow> appendLoop L cfg files st = Returns st' \<Longrightarrow>
   \<not> indexWritable (world st')"
proof (induction files arbitrary: st)
  case Nil
  then show ?case by simp
next
  case (Cons f files)
  obtain name entry where f: "f = (name, entry)" by (cases f)
  from Cons.prems(2) f obtain post err where
    g: "getPostInfo L cfg (world st) name = Returns (post, err)"
    by (auto split: outcome.splits)
  show ?case
  proof (cases "isErr err")
    case False
    with Cons f g show ?thesis by simp
  next
    case True
    obtain s st1 where a: "goAppend L (posts st) post st = (s, st1)"
      by (cases "goAppend L (posts st) post st")
    with True g f Cons.prems(2) have r: "appendLoop L cfg files (st1\<lparr>posts := s\<rparr>) = Returns st'"
      by simp
    from a have "world st1 = world st" by (auto simp: goAppend_def Let_def split: if_splits)
    with Cons.prems(1) have "\<not> indexWritable (world (st1\<lparr>posts := s\<rparr>))" by simp
    then show ?thesis using r by (rule Cons.IH)
  qed
qed

lemma checkAllPosts_write_error:
  assumes "dataListable (world st)" and "\<not> indexWritable (world st)"
    and "checkAllPosts L cfg st = Returns (err, st')"
  shows "err = Some WriteError"
proof -
  let ?files = "readDir (dataEntries (world st))"
  from assms(1,3) obtain st1 st2 where
    l1: "updateLoop L cfg ?files st = Returns st1"
    and l2: "appendLoop L cfg ?files st1 = Returns st2"
    and e: "err = fst (writeIndex (elems (snd (sortPosts L (posts st2) st2)) (posts st2))
                         (world st2))"
    by (auto simp: checkAllPosts_def Let_def sortPosts_def elems_def
        split: outcome.splits prod.splits)
  from assms(2) l1 have "\<not> indexWritable (world st1)" by (rule updateLoop_unwritable)
  then have "\<not> indexWritable (world st2)" using l2 by (rule appendLoop_unwritable)
  with e show ?thesis by (simp add: writeIndex_def)
qed

section \<open>Facts about the extraction of working copies\<close>

lemma extractGitData_repoEntries:
  "extractGitData name w = Returns w1 \<Longrightarrow> repoEntries w1 = repoEntries w"
  by (auto simp: extractGitData_def removeData_def Let_def
      split: if_splits option.splits repoEntry.splits bool.splits prod.splits)

lemma extractGitData_not_cloneable:
  "map_of (repoEntries w) name = Some (RepoDir False readme date) \<Longrightarrow>
   extractGitData name w = Exits"
  by (auto simp: extractGitData_def removeData_def Let_def split: if_splits prod.splits)

lemma extractGitData_no_hang: "extractGitData name w \<noteq> Hangs"
  by (auto simp: extractGitData_def removeData_def Let_def
      split: if_splits option.splits repoEntry.splits bool.splits prod.splits)

lemma extractLoop_exits:
  assumes "(name, RepoDir False readme date) \<in> set files"
    and "\<forall>(n, e) \<in> set files. map_of (repoEntries w) n = Some e"
  shows "extractLoop files w = Exits"
  using assms
proof (induction files arbitrary: w)
  case Nil
  then show ?case by simp
next
  case (Cons f files)
  obtain n e where f: "f = (n, e)" by (cases f)
  show ?case
  proof (cases "f = (name, RepoDir False readme date)")
    case True
    with Cons.prems(2) have "map_of (repoEntries w) name = Some (RepoDir False readme date)"
      by simp
    then have "extractGitData name w = Exits" by (rule extractGitData_not_cloneable)
    with True show ?thesis by simp
  next
    case False
    with Cons.prems(1) have m: "(name, RepoDir False readme date) \<in> set files" by simp
    show ?thesis
    proof (cases "isRepoDir e")
      case False
      from Cons.prems(2) have "\<forall>(n, e) \<in> set files. map_of (repoEntries w) n = Some e"
        by simp
      with m have "extractLoop files w = Exits" by (rule Cons.IH)
      with False f show ?thesis by simp
    next
      case True
      show ?thesis
      proof (cases "extractGitData n w")
        case (Returns w1)
        then have "repoEntries w1 = repoEntries w" by (rule extractGitData_repoEntries)
        with Cons.prems(2) have "\<forall>(n, e) \<in> set files. map_of (repoEntries w1) n = Some e"
          by simp
        with m have "extractLoop files w1 = Exits" by (rule Cons.IH)
        with True f Returns show ?thesis by simp
      next
        case Exits
        with True f show ?thesis by simp
      next
        case Hangs
        with extractGitData_no_hang show ?thesis by blast
      qed
    qed
  qed
qed

section \<open>The claims\<close>

text \<open>
  C1.  The code at the input the claim is about: a process has rebuilt its index, which
  holds the public post \<open>x\<close>; a push puts \<open><!-- delete -->\<close> on the first line of the
  document of \<open>x\<close>, and \<open>gitUpdate\<close> runs for \<open>x\<close>.  Afterwards \<open>x\<close> is gone from
  \<open>publicPosts\<close>, from \<open>data/\<close>, from \<open>git/\<close> and from the index file, but the package
  variable \<open>posts\<close> still holds it: \<open>deletePost\<close> and \<open>updatePost\<close> shorten their own copy
  of the slice header, and \<open>gitUpdate\<close> drops the slice that \<open>updatePost\<close> returns.
\<close>

theorem gitUpdate_keeps_deleted_post:
  "firstLineOf mdDelete = ''<!-- delete -->'' \<and>
   (\<exists>st. run exLib exCfg exDeleteEvents (initState (exWorld mdPublic)) = Returns st \<and>
         map Name (index st) = [''x''] \<and>
         publicPosts st = [] \<and>
         map_of (dataEntries (world st)) ''x'' = None \<and>
         map_of (repoEntries (world st)) ''x'' = None \<and>
         indexFile (world st) = Some [])"
proof -
  have "firstLineOf mdDelete = ''<!-- delete -->''" by code_simp
  moreover have "case run exLib exCfg exDeleteEvents (initState (exWorld mdPublic)) of
      Returns st \<Rightarrow>
        map Name (index st) = [''x''] \<and> publicPosts st = [] \<and>
        map_of (dataEntries (world st)) ''x'' = None \<and>
        map_of (repoEntries (world st)) ''x'' = None \<and>
        indexFile (world st) = Some []
    | _ \<Rightarrow> False"
    by code_simp
  ultimately show ?thesis by (auto split: outcome.splits)
qed

text \<open>
  C2.  The code on a full rebuild of a world whose only post asks for deletion, from the
  empty index: the first loop of \<open>checkAllPosts\<close> deletes the post and its directories,
  the second loop then gets an error from \<open>getPostInfo\<close> for the directory that is gone
  and, because its test is \<open>err != nil\<close>, appends the zero \<open>Post\<close> that came with the error.
  The index ends up holding a record whose state is the empty string.
\<close>

theorem rebuild_stores_zero_post:
  "\<exists>st. fullRebuild exLib exCfg (initState (exWorld mdDelete)) = Returns st \<and>
        index st = [zeroPost] \<and> State zeroPost = '''' \<and>
        State zeroPost \<noteq> ''public'' \<and> State zeroPost \<noteq> ''private''"
proof -
  have "case fullRebuild exLib exCfg (initState (exWorld mdDelete)) of
      Returns st \<Rightarrow>
        index st = [zeroPost] \<and> State zeroPost = '''' \<and>
        State zeroPost \<noteq> ''public'' \<and> State zeroPost \<noteq> ''private''
    | _ \<Rightarrow> False"
    by code_simp
  then show ?thesis by (auto split: outcome.splits)
qed

text \<open>
  C3.  The code on the first push of a public post \<open>x\<close> into a process with an empty
  index: \<open>updatePost\<close> appends to its own copy of the slice and derives \<open>publicPosts\<close> from
  that copy; \<open>gitUpdate\<close> drops the slice returned, so \<open>posts\<close> stays empty while
  \<open>publicPosts\<close> holds \<open>x\<close>.
\<close>

theorem gitUpdate_public_not_in_index:
  "\<exists>st. gitUpdate exLib exCfg ''/x/git-receive-pack'' ''x'' (initState (exWorld mdPublic))
          = Returns st \<and>
        index st = [] \<and> map Name (publicPosts st) = [''x''] \<and>
        publicPosts st \<noteq> publicOf (index st)"
proof -
  have "case gitUpdate exLib exCfg ''/x/git-receive-pack'' ''x'' (initState (exWorld mdPublic)) of
      Returns st \<Rightarrow>
        index st = [] \<and> map Name (publicPosts st) = [''x''] \<and>
        publicPosts st \<noteq> publicOf (index st)
    | _ \<Rightarrow> False"
    by code_simp
  then show ?thesis by (auto split: outcome.splits)
qed

text \<open>
  C4.  Whatever sequence of full rebuilds and pushes the process goes through, and however
  the world changes in between, the index that the package variable \<open>posts\<close> shows is
  ordered by \<open>Mtime\<close>, latest first, after each of them.  The sequence starts from an
  ordered index, as the empty index of a new process is; \<open>sort.Slice\<close> is any function that
  meets its contract.  A prefix of a sequence is a sequence, so this holds after every
  single operation.
\<close>

theorem index_sorted_after_every_operation:
  assumes "sortSliceContract (sortSlice L)" and "wellFormed st" and "sortedDesc (index st)"
    and "run L cfg es st = Returns st'"
  shows "sortedDesc (index st')"
proof -
  have "wellFormed st \<Longrightarrow> sortedDesc (index st) \<Longrightarrow> run L cfg es st = Returns st'
     \<Longrightarrow> wellFormed st' \<and> sortedDesc (index st')"
  proof (induction es arbitrary: st)
    case Nil
    then show ?case by simp
  next
    case (Cons e es)
    from Cons.prems(3) obtain st1 where s: "step L cfg e st = Returns st1"
      and r: "run L cfg es st1 = Returns st'"
      by (auto split: outcome.splits)
    from assms(1) Cons.prems(1,2) s have "wellFormed st1 \<and> sortedDesc (index st1)"
      by (rule step_sorted)
    with r show ?case using Cons.IH by blast
  qed
  with assms show ?thesis by blast
qed

theorem index_sorted_witness:
  "sortSliceContract (sortSlice exLib) \<and>
   wellFormed (initState (exTwoRepos ''2024-05-01 10:00:00\<newline>'')) \<and>
   sortedDesc (index (initState (exTwoRepos ''2024-05-01 10:00:00\<newline>''))) \<and>
   (\<exists>st'. run exLib exCfg exEvents (initState (exTwoRepos ''2024-05-01 10:00:00\<newline>''))
             = Returns st' \<and>
          map Name (index st') = [''x'', ''y''] \<and> sortedDesc (index st'))"
proof -
  let ?st = "initState (exTwoRepos ''2024-05-01 10:00:00\<newline>'')"
  have c: "sortSliceContract (sortSlice exLib)"
    by (simp add: exLib_def insertionSort_contract)
  have wf: "wellFormed ?st" by (simp add: wellFormed_def initState_def cap_def)
  have s: "sortedDesc (index ?st)"
    by (simp add: sortedDesc_def index_def elems_def initState_def)
  have "case run exLib exCfg exEvents ?st of
          Returns st' \<Rightarrow> map Name (index st') = [''x'', ''y''] | _ \<Rightarrow> False"
    by code_simp
  then obtain st' where r: "run exLib exCfg exEvents ?st = Returns st'"
    and n: "map Name (index st') = [''x'', ''y'']"
    by (auto split: outcome.splits)
  from c wf s r have "sortedDesc (index st')"
    by (rule index_sorted_after_every_operation)
  with r n have "\<exists>st'. run exLib exCfg exEvents ?st = Returns st' \<and>
      map Name (index st') = [''x'', ''y''] \<and> sortedDesc (index st')"
    by (intro exI [of _ st']) simp
  with c wf s show ?thesis by (intro conjI)
qed




text \<open>
  C6.  The state of a post is read off the first line of its document: when that line
  starts with \<open><!--\<close>, the first of the keywords \<open>public\<close>, \<open>private\<close>, \<open>delete\<close>, in this
  order, that occurs in the line decides, whatever else occurs in it; when none occurs,
  or the line does not start with \<open><!--\<close>, the state is the default.
\<close>

theorem postState_priority:
  "postState d md =
     (let l = takeWhile (\<lambda>c. c \<noteq> CHR ''\<newline>'') md in
      if prefix ''<!--'' l then
        (if sublist ''public'' l then ''public''
         else if sublist ''private'' l then ''private''
         else if sublist ''delete'' l then ''delete''
         else d)
      else d)"
  by (simp add: postState_def Let_def hasPrefix_def strContains_sublist firstLineOf_takeWhile)

text \<open>
  C7.  The code in a world where the index file cannot be written: \<open>updatePost\<close> returns
  its slice as ever, and so does \<open>gitUpdate\<close>, with nothing written and nothing reported
  (neither has an error among its results); \<open>checkAllPosts\<close> in the same world returns the
  write error.
\<close>

theorem updatePost_drops_write_error:
  "(\<exists>s st. updatePost exLib exCfg ''x'' (posts (initState exUnwritable)) (initState exUnwritable)
             = Returns (s, st) \<and>
           map Name (elems st s) = [''x''] \<and> indexFile (world st) = None) \<and>
   (\<exists>st. gitUpdate exLib exCfg ''/x/git-receive-pack'' ''x'' (initState exUnwritable) = Returns st \<and>
          indexFile (world st) = None) \<and>
   (\<exists>st. checkAllPosts exLib exCfg (initState exUnwritable) = Returns (Some WriteError, st))"
proof -
  have "case updatePost exLib exCfg ''x'' (posts (initState exUnwritable)) (initState exUnwritable) of
      Returns (s, st) \<Rightarrow> map Name (elems st s) = [''x''] \<and> indexFile (world st) = None
    | _ \<Rightarrow> False"
    by code_simp
  moreover have "case gitUpdate exLib exCfg ''/x/git-receive-pack'' ''x'' (initState exUnwritable) of
      Returns st \<Rightarrow> indexFile (world st) = None
    | _ \<Rightarrow> False"
    by code_simp
  moreover have "case checkAllPosts exLib exCfg (initState exUnwritable) of
      Returns (err, st) \<Rightarrow> err = Some WriteError
    | _ \<Rightarrow> False"
    by code_simp
  ultimately show ?thesis by (auto split: outcome.splits)
qed

text \<open>
  C8, as stated, fails.  In a world where repository \<open>a\<close> cannot be cloned and
  repository \<open>b\<close> can, \<open>b\<close> alone is extracted without trouble, but
  \<open>extractAllGitData\<close> ends the process at \<open>a\<close>, and so does the full rebuild: \<open>b\<close> is
  never reached and no index is built.
\<close>

theorem rebuild_aborts_on_one_failure:
  "extractGitData ''b'' exBrokenRepo
     = Returns (exBrokenRepo\<lparr>dataEntries := [(''b'', DataDir (Some mdPublic))]\<rparr>) \<and>
   extractAllGitData exBrokenRepo = Exits \<and>
   fullRebuild exLib exCfg (initState exBrokenRepo) = Exits"
proof -
  have "extractGitData ''b'' exBrokenRepo
     = Returns (exBrokenRepo\<lparr>dataEntries := [(''b'', DataDir (Some mdPublic))]\<rparr>)"
    by (simp add: extractGitData_def exBrokenRepo_def)
  moreover have "extractAllGitData exBrokenRepo = Exits"
    by (simp add: extractAllGitData_def readDir_def extractGitData_def exBrokenRepo_def)
  ultimately show ?thesis by (simp add: fullRebuild_def initState_def)
qed

text \<open>
  C8, amended.  During a full rebuild, an extraction failure for one post (the listing of
  \<open>git/\<close> fails, or one repository in it cannot be cloned) ends the process through
  \<open>log.Fatalf\<close>: \<open>extractAllGitData\<close> does not return, and neither does the rebuild.
\<close>

theorem extraction_failure_exits:
  assumes "\<not> repoListable (world st) \<or>
           (distinct (map fst (repoEntries (world st))) \<and>
            map_of (repoEntries (world st)) name = Some (RepoDir False readme date))"
  shows "extractAllGitData (world st) = Exits \<and> fullRebuild L cfg st = Exits"
proof -
  have "extractAllGitData (world st) = Exits"
  proof (cases "repoListable (world st)")
    case False
    then show ?thesis by (simp add: extractAllGitData_def)
  next
    case True
    with assms have d: "distinct (map fst (repoEntries (world st)))"
      and m: "map_of (repoEntries (world st)) name = Some (RepoDir False readme date)"
      by auto
    from m have "(name, RepoDir False readme date) \<in> set (readDir (repoEntries (world st)))"
      by (auto simp: readDir_def dest: map_of_SomeD)
    moreover from d have "\<forall>(n, e) \<in> set (readDir (repoEntries (world st))).
        map_of (repoEntries (world st)) n = Some e"
      by (auto simp: readDir_def)
    ultimately have "extractLoop (readDir (repoEntries (world st))) (world st) = Exits"
      by (rule extractLoop_exits)
    with True show ?thesis by (simp add: extractAllGitData_def)
  qed
  then show ?thesis by (simp add: fullRebuild_def)
qed

theorem extraction_failure_exits_witness:
  "distinct (map fst (repoEntries (world (initState exBrokenRepo)))) \<and>
   map_of (repoEntries (world (initState exBrokenRepo))) ''a'' = Some (RepoDir False None None) \<and>
   extractAllGitData (world (initState exBrokenRepo)) = Exits \<and>
   fullRebuild exLib exCfg (initState exBrokenRepo) = Exits"
proof -
  have d: "distinct (map fst (repoEntries (world (initState exBrokenRepo))))"
    by (simp add: initState_def exBrokenRepo_def)
  have m: "map_of (repoEntries (world (initState exBrokenRepo))) ''a'' = Some (RepoDir False None None)"
    by (simp add: initState_def exBrokenRepo_def)
  from d m have "\<not> repoListable (world (initState exBrokenRepo)) \<or>
           (distinct (map fst (repoEntries (world (initState exBrokenRepo)))) \<and>
            map_of (repoEntries (world (initState exBrokenRepo))) ''a'' = Some (RepoDir False None None))"
    by simp
  from extraction_failure_exits [OF this, of exLib exCfg] d m show ?thesis by (intro conjI) simp_all
qed

text \<open>
  C9.  On the HTML that the markdown document \<open># Title\<close>, image \<open>a.png\<close>, paragraph
  \<open>First real paragraph.\<close> renders to, the extraction returns the title \<open>Title\<close>, as
  excerpt the paragraph block \<open><p>First real paragraph.</p>\<close> (the paragraph that holds
  the image is passed over) and the banner source \<open>a.png\<close>.
\<close>

theorem extract_example:
  "extractH1Title htmlExample = ''Title'' \<and>
   extractFirstParagraph htmlExample = Some ''<p>First real paragraph.</p>'' \<and>
   extractFirstImage htmlExample = ''a.png'' \<and>
   extractTitleAndBody htmlExample = Some (''Title'', ''<p>First real paragraph.</p>'', ''a.png'')"
  by code_simp

text \<open>
  C10.  For a post whose \<open>README.md\<close> can be read, \<open>getPostInfo\<close> (when the scan of
  the rendered document ends, and then it does return a record without error) stores as
  banner \<open>"data/" + name + "/" + s\<close>, where \<open>s\<close> is the source of the first image.  That
  banner is never empty, and it is \<open>"data/<name>/"\<close> when the rendered document holds no
  image.  The record for a post without readable \<open>README.md\<close> has the empty banner.
\<close>

theorem getPostInfo_banner:
  assumes "map_of (dataEntries w) name = Some entry"
  shows "case readReadme entry of
           None \<Rightarrow> (\<exists>p. getPostInfo L cfg w name = Returns (p, None) \<and> Banner p = '''')
         | Some md \<Rightarrow>
             (case extractFirstParagraph (render L md) of
                None \<Rightarrow> getPostInfo L cfg w name = Hangs
              | Some body \<Rightarrow>
                  (\<exists>p. getPostInfo L cfg w name = Returns (p, None) \<and>
                       Banner p = ''data/'' @ name @ ''/'' @ extractFirstImage (render L md) \<and>
                       Banner p \<noteq> '''' \<and>
                       Banner p = ''data/'' @ name @ ''/'' @
                         (if sublist ''<img'' (render L md)
                          then extractFirstImage (render L md) else '''')))"
  using assms
  by (auto simp: getPostInfo_def extractTitleAndBody_def dataDir_def Let_def
      extractFirstImage_no_img split: option.splits)

theorem getPostInfo_banner_witness:
  "(\<exists>p. getPostInfo exLib exCfg ((exWorld mdPublic)\<lparr>dataEntries := [(''x'', DataDir (Some mdPublic))]\<rparr>) ''x''
           = Returns (p, None) \<and> Banner p = ''data/x/'') \<and>
   (\<exists>p. getPostInfo exLib exCfg ((exWorld mdPublic)\<lparr>dataEntries := [(''x'', DataDir (Some mdExample))]\<rparr>) ''x''
           = Returns (p, None) \<and> Banner p = ''data/x/a.png'') \<and>
   (\<exists>p. getPostInfo exLib exCfg ((exWorld mdPublic)\<lparr>dataEntries := [(''x'', DataDir None)]\<rparr>) ''x''
           = Returns (p, None) \<and> Banner p = '''')"
proof (intro conjI)
  let ?w = "(exWorld mdPublic)\<lparr>dataEntries := [(''x'', DataDir (Some mdPublic))]\<rparr>"
  have e: "map_of (dataEntries ?w) ''x'' = Some (DataDir (Some mdPublic))" by simp
  have r: "render exLib mdPublic = ''<!-- public -->\<newline>\<newline><h1>Hello</h1>\<newline>''"
    by (simp add: exLib_def exRender_def mdPublic_def mdExample_def mdDelete_def)
  have p: "extractFirstParagraph (render exLib mdPublic) = Some ''''"
    unfolding r by code_simp
  have n: "\<not> sublist ''<img'' (render exLib mdPublic)"
    unfolding r strContains_sublist [symmetric] by code_simp
  from getPostInfo_banner [OF e, of exLib exCfg] p n
  show "\<exists>p. getPostInfo exLib exCfg ?w ''x'' = Returns (p, None) \<and> Banner p = ''data/x/''"
    by auto
next
  let ?w = "(exWorld mdPublic)\<lparr>dataEntries := [(''x'', DataDir (Some mdExample))]\<rparr>"
  have e: "map_of (dataEntries ?w) ''x'' = Some (DataDir (Some mdExample))" by simp
  have r: "render exLib mdExample = htmlExample"
    by (simp add: exLib_def exRender_def)
  have p: "extractFirstParagraph (render exLib mdExample) = Some ''<p>First real paragraph.</p>''"
    unfolding r by code_simp
  have i: "extractFirstImage (render exLib mdExample) = ''a.png''"
    unfolding r by code_simp
  from getPostInfo_banner [OF e, of exLib exCfg] p i
  show "\<exists>p. getPostInfo exLib exCfg ?w ''x'' = Returns (p, None) \<and> Banner p = ''data/x/a.png''"
    by auto
next
  let ?w = "(exWorld mdPublic)\<lparr>dataEntries := [(''x'', DataDir None)]\<rparr>"
  have e: "map_of (dataEntries ?w) ''x'' = Some (DataDir None)" by simp
  from getPostInfo_banner [OF e, of exLib exCfg]
  show "\<exists>p. getPostInfo exLib exCfg ?w ''x'' = Returns (p, None) \<and> Banner p = ''''"
    by simp
qed

end
